theory Spec2Isabelle
  imports Main
begin

unbundle bit_operations_syntax

section \<open>Values and the pixel object\<close>

text \<open>
  The exceptions the animation code can raise. \<open>NoSuchObject\<close> belongs to the model
  only: it is the outcome of looking up an object identity that the store does not hold
  (a Python reference cannot dangle).
\<close>

datatype py_error = NotImplementedError | IndexError | ZeroDivisionError | TypeError
  | AttributeError | NoSuchObject

text \<open>
  The Python values used as colours: \<open>None\<close>, a packed integer \<open>0xRRGGBB\<close>, a tuple
  of channel values, or a list of channel values. Python's \<open>==\<close> on these values is
  equality of the datatype: an integer never equals a tuple, a tuple never equals a list.
\<close>

datatype color = PyNone | Packed int | Tuple "int list" | PyList "int list"

text \<open>
  Modelled from the spec: the colour table of the package (\<open>from .color import BLACK\<close>)
  is not among the sources; \<open>BLACK\<close> is the "off" colour, the triple of zeros.
\<close>

definition BLACK :: color where
  "BLACK = Tuple [0, 0, 0]"

text \<open>
  The pixel object is external. It is modelled as a Python list of colour values with the
  \<open>auto_write\<close> attribute; \<open>shown\<close> is a ghost field, the frames flushed by \<open>show()\<close>,
  oldest first.
\<close>

record pixel_object =
  pixels :: "color list"
  auto_write :: bool
  shown :: "color list list"

definition po_show :: "pixel_object \<Rightarrow> pixel_object" where
  "po_show po = po\<lparr>shown := shown po @ [pixels po]\<rparr>"

definition po_fill :: "color \<Rightarrow> pixel_object \<Rightarrow> pixel_object" where
  "po_fill c po = po\<lparr>pixels := replicate (length (pixels po)) c\<rparr>"

text \<open>Python's clipping of a slice bound \<open>i\<close> on a sequence of length \<open>n\<close>.\<close>

definition slice_bound :: "nat \<Rightarrow> int \<Rightarrow> nat" where
  "slice_bound n i = (if i < 0 then nat (max 0 (i + int n)) else min (nat i) n)"

text \<open>\<open>xs[i:j]\<close> and \<open>xs[i:]\<close>.\<close>

definition py_slice :: "'a list \<Rightarrow> int \<Rightarrow> int \<Rightarrow> 'a list" where
  "py_slice xs i j =
     (let a = slice_bound (length xs) i; b = slice_bound (length xs) j
      in drop a (take b xs))"

definition py_slice_from :: "'a list \<Rightarrow> int \<Rightarrow> 'a list" where
  "py_slice_from xs i = drop (slice_bound (length xs) i) xs"

text \<open>\<open>xs[i:j] = vs\<close> on a Python list.\<close>

definition py_set_slice :: "'a list \<Rightarrow> int \<Rightarrow> int \<Rightarrow> 'a list \<Rightarrow> 'a list" where
  "py_set_slice xs i j vs =
     (let a = slice_bound (length xs) i; b = slice_bound (length xs) j
      in take a xs @ vs @ drop (max a b) xs)"

section \<open>The Animation base class\<close>

type_synonym aid = nat
type_synonym sid = nat
type_synonym callback = nat

text \<open>The generator of \<open>ColorCycle._color_generator\<close>: not started yet, or suspended at
  its \<open>yield\<close> with the local \<open>index\<close>.\<close>

datatype color_generator = ColorUnstarted | ColorAtYield nat

datatype color_cycle_class = ColorCycleC | BlinkC | SolidC

text \<open>The generator of \<open>Comet._comet_generator\<close>: not started yet, or suspended at its
  \<open>yield\<close> with the locals \<open>num_pixels\<close>, \<open>cycle_passes\<close>, \<open>colors\<close> and the rest of
  the range the \<open>for\<close> loop runs over.\<close>

datatype comet_generator = CometUnstarted
  | CometAtYield nat int "color list option" "int list"

text \<open>
  The fields a \<open>Comet\<close> adds. \<open>fade c n\<close> stands for the floating-point expression
  \<open>int(c * ((n * self._color_step) + self._color_offset))\<close>, which is not modelled:
  it is a parameter of the constructor.
\<close>

record comet_fields =
  tail_length :: int
  fade :: "int \<Rightarrow> int \<Rightarrow> int"
  comet_colors :: "color list option"
  reverse_comet_colors :: "color list option"
  initial_reverse :: bool
  comet_reverse :: bool
  bounce :: bool
  computed_color :: color
  comet_gen :: comet_generator

text \<open>The fields a \<open>Chase\<close> adds; \<open>reset_reverse\<close> is the \<open>reverse\<close> argument captured
  by the closure \<open>_resetter\<close>.\<close>

record chase_fields =
  chase_size :: int
  spacing :: int
  repeat_width :: int
  num_repeats :: int
  overflow :: int
  direction :: int
  chase_reverse :: bool
  offset :: int
  reset_reverse :: bool

datatype ext = AnimationX
  | ColorCycleX color_cycle_class "color list" color_generator
  | CometX comet_fields
  | ChaseX chase_fields

text \<open>
  An animation object. \<open>ext\<close> holds the class and the fields of the subclass.
  \<open>hook_calls\<close> and \<open>notified\<close> are ghost fields: the arguments of every call of
  \<open>_recompute_color\<close>, and the callbacks invoked by \<open>cycle_complete\<close>, oldest first.
\<close>

record animation =
  pixel_object :: sid
  peers :: "aid list"
  speed_ns :: int
  color :: color
  paused :: bool
  next_update :: int
  time_left_at_pause :: int
  also_notify :: "callback list"
  name :: "string option"
  notify_cycles :: int
  draw_count :: int
  cycle_count :: int
  ext :: ext
  hook_calls :: "color list"
  notified :: "callback list"

text \<open>\<open>_recompute_color\<close>, dispatched on the class: \<open>Blink\<close> and \<open>Solid\<close> rebuild
  their colour list, every other class does nothing.\<close>

definition recompute_color :: "color \<Rightarrow> animation \<Rightarrow> animation" where
  "recompute_color c a =
     (let a' = a\<lparr>hook_calls := hook_calls a @ [c]\<rparr>
      in case ext a of
           ColorCycleX BlinkC cs g \<Rightarrow> a'\<lparr>ext := ColorCycleX BlinkC [c, BLACK] g\<rparr>
         | ColorCycleX SolidC cs g \<Rightarrow> a'\<lparr>ext := ColorCycleX SolidC [c] g\<rparr>
         | _ \<Rightarrow> a')"

text \<open>\<open>(color >> 16 & 0xFF, color >> 8 & 0xFF, color & 0xFF)\<close> for an integer, the
  value itself otherwise.\<close>

definition normalize_color :: "color \<Rightarrow> color" where
  "normalize_color c =
     (case c of
        Packed n \<Rightarrow> Tuple [drop_bit 16 n AND 255, drop_bit 8 n AND 255, n AND 255]
      | _ \<Rightarrow> c)"

text \<open>The setter of the \<open>color\<close> property.\<close>

definition set_color :: "color \<Rightarrow> animation \<Rightarrow> animation" where
  "set_color c a =
     (if color a = c then a
      else let c' = normalize_color c in recompute_color c' (a\<lparr>color := c'\<rparr>))"

text \<open>\<open>freeze\<close> and \<open>resume\<close>; \<open>now\<close> is the value \<open>monotonic_ns()\<close> returns.\<close>

definition freeze :: "int \<Rightarrow> animation \<Rightarrow> animation" where
  "freeze now a =
     a\<lparr>paused := True, time_left_at_pause := max 0 (now - next_update a)\<rparr>"

definition resume :: "int \<Rightarrow> animation \<Rightarrow> animation" where
  "resume now a =
     a\<lparr>next_update := now + time_left_at_pause a, time_left_at_pause := 0,
       paused := False\<rparr>"

text \<open>\<open>cycle_complete\<close>: the modulo raises when \<open>notify_cycles\<close> is zero.\<close>

definition cycle_complete :: "animation \<Rightarrow> py_error + animation" where
  "cycle_complete a =
     (let a1 = a\<lparr>cycle_count := cycle_count a + 1\<rparr>
      in if notify_cycles a1 = 0 then Inl ZeroDivisionError
         else if cycle_count a1 mod notify_cycles a1 = 0
         then Inr (a1\<lparr>notified := notified a1 @ also_notify a1\<rparr>)
         else Inr a1)"

definition add_cycle_complete_receiver :: "callback \<Rightarrow> animation \<Rightarrow> animation" where
  "add_cycle_complete_receiver cb a = a\<lparr>also_notify := also_notify a @ [cb]\<rparr>"

text \<open>
  \<open>Animation.__init__\<close>. \<open>x\<close> holds what the subclass assigned before it called
  \<open>super().__init__\<close>; \<open>speed\<close> is the value of \<open>int(seconds * NANOS_PER_SECOND)\<close>;
  \<open>now\<close> is the clock. The assignments that follow \<open>self.color = color\<close> in the source
  write fields the hook never reads, so the record is built with them and the setter
  runs on it.
\<close>

definition Animation_init ::
  "ext \<Rightarrow> sid \<Rightarrow> pixel_object \<Rightarrow> int \<Rightarrow> color \<Rightarrow> aid list option \<Rightarrow> bool \<Rightarrow>
   string option \<Rightarrow> int \<Rightarrow> animation \<times> pixel_object" where
  "Animation_init x s po speed c ps p nm now =
     (set_color c
        \<lparr>pixel_object = s,
         peers = (case ps of None \<Rightarrow> [] | Some l \<Rightarrow> l),
         speed_ns = speed,
         color = PyNone,
         paused = p,
         next_update = now,
         time_left_at_pause = 0,
         also_notify = [],
         name = nm,
         notify_cycles = 1,
         draw_count = 0,
         cycle_count = 0,
         ext = x,
         hook_calls = [],
         notified = []\<rparr>,
      po\<lparr>auto_write := False\<rparr>)"

text \<open>The base class leaves \<open>draw\<close> to its subclasses and \<open>reset\<close> empty.\<close>

definition Animation_draw :: "animation \<Rightarrow> pixel_object \<Rightarrow> py_error + animation \<times> pixel_object" where
  "Animation_draw a po = Inl NotImplementedError"

definition Animation_reset :: "animation \<Rightarrow> animation" where
  "Animation_reset a = a"

section \<open>ColorCycle, Blink and Solid\<close>

text \<open>The head of the generator's loop: \<open>self._color = self.colors[index]; yield\<close>.\<close>

definition color_yield ::
  "animation \<Rightarrow> color list \<Rightarrow> nat \<Rightarrow> py_error + animation \<times> color_generator" where
  "color_yield a cs i =
     (if i < length cs then Inr (a\<lparr>color := cs ! i\<rparr>, ColorAtYield i)
      else Inl IndexError)"

text \<open>\<open>next(self._generator)\<close> for the colour generator.\<close>

definition color_next ::
  "animation \<Rightarrow> color list \<Rightarrow> color_generator \<Rightarrow> py_error + animation \<times> color_generator" where
  "color_next a cs g =
     (case g of
        ColorUnstarted \<Rightarrow> color_yield a cs 0
      | ColorAtYield i \<Rightarrow>
          if length cs = 0 then Inl ZeroDivisionError
          else let i' = (i + 1) mod length cs
               in if i' = 0
                  then (case cycle_complete a of
                          Inl e \<Rightarrow> Inl e
                        | Inr a1 \<Rightarrow> color_yield a1 cs i')
                  else color_yield a cs i')"

definition with_generator :: "animation \<Rightarrow> color_generator \<Rightarrow> animation" where
  "with_generator a g =
     (case ext a of ColorCycleX k cs g0 \<Rightarrow> a\<lparr>ext := ColorCycleX k cs g\<rparr> | _ \<Rightarrow> a)"

definition ColorCycle_draw ::
  "animation \<Rightarrow> pixel_object \<Rightarrow> py_error + animation \<times> pixel_object" where
  "ColorCycle_draw a po =
     (case ext a of
        ColorCycleX k cs g \<Rightarrow>
          (let po1 = po_fill (color a) po;
               po2 = po_show po1
           in case color_next a cs g of
                Inl e \<Rightarrow> Inl e
              | Inr (a1, g1) \<Rightarrow> Inr (with_generator a1 g1, po2))
      | _ \<Rightarrow> Inl AttributeError)"

text \<open>\<open>ColorCycle.reset\<close>: \<open>self._generator = self._color_generator()\<close>.\<close>

definition ColorCycle_reset :: "animation \<Rightarrow> animation" where
  "ColorCycle_reset a = with_generator a ColorUnstarted"

text \<open>\<open>ColorCycle.__init__\<close>, for the class \<open>k\<close> that is being constructed.\<close>

definition ColorCycle_init ::
  "color_cycle_class \<Rightarrow> sid \<Rightarrow> pixel_object \<Rightarrow> int \<Rightarrow> color list \<Rightarrow> string option \<Rightarrow> int \<Rightarrow>
   py_error + animation \<times> pixel_object" where
  "ColorCycle_init k s po speed colors nm now =
     (case colors of
        [] \<Rightarrow> Inl IndexError
      | c0 # _ \<Rightarrow>
          (case Animation_init (ColorCycleX k colors ColorUnstarted) s po speed c0
                  None False nm now of
             (a, po1) \<Rightarrow>
               (let a1 = ColorCycle_reset a
                in case ext a1 of
                     ColorCycleX k1 cs g \<Rightarrow>
                       (case color_next a1 cs g of
                          Inl e \<Rightarrow> Inl e
                        | Inr (a2, g2) \<Rightarrow> Inr (with_generator a2 g2, po1))
                   | _ \<Rightarrow> Inl AttributeError)))"

text \<open>
  Modelled from the spec: \<open>NANOS_PER_SECOND\<close> is imported from the package's
  \<open>__init__\<close>, which is not among the sources; it is the number of nanoseconds in a second.
\<close>

definition NANOS_PER_SECOND :: int where
  "NANOS_PER_SECOND = 1000000000"

definition Blink_init ::
  "sid \<Rightarrow> pixel_object \<Rightarrow> int \<Rightarrow> color \<Rightarrow> string option \<Rightarrow> int \<Rightarrow>
   py_error + animation \<times> pixel_object" where
  "Blink_init s po speed c nm now = ColorCycle_init BlinkC s po speed [c, BLACK] nm now"

definition Solid_init ::
  "sid \<Rightarrow> pixel_object \<Rightarrow> color \<Rightarrow> string option \<Rightarrow> int \<Rightarrow>
   py_error + animation \<times> pixel_object" where
  "Solid_init s po c nm now = ColorCycle_init SolidC s po (1 * NANOS_PER_SECOND) [c] nm now"

section \<open>Comet\<close>

text \<open>\<open>Comet.__recompute_color\<close>: the table of \<open>_tail_length\<close> colours.\<close>

definition comet_table :: "comet_fields \<Rightarrow> color \<Rightarrow> py_error + color list" where
  "comet_table c col =
     (let ns = [0..tail_length c - 2]
      in case col of
           Tuple v \<Rightarrow> Inr (BLACK # map (\<lambda>n. PyList (map (\<lambda>x. fade c x n) v)) ns)
         | PyList v \<Rightarrow> Inr (BLACK # map (\<lambda>n. PyList (map (\<lambda>x. fade c x n) v)) ns)
         | _ \<Rightarrow> if ns = [] then Inr [BLACK] else Inl TypeError)"

definition comet_recompute :: "comet_fields \<Rightarrow> color \<Rightarrow> py_error + comet_fields" where
  "comet_recompute c col =
     (case comet_table c col of
        Inl e \<Rightarrow> Inl e
      | Inr t \<Rightarrow> Inr (c\<lparr>comet_colors := Some t, reverse_comet_colors := Some (rev t),
                       computed_color := col\<rparr>))"

text \<open>\<open>Comet._get_range\<close>: \<open>range(num_pixels, -_tail_length - 1, -1)\<close> when reversed,
  \<open>range(-_tail_length, num_pixels + 1)\<close> otherwise.\<close>

definition get_range :: "comet_fields \<Rightarrow> nat \<Rightarrow> int list" where
  "get_range c num_pixels =
     (if comet_reverse c then rev [- tail_length c..int num_pixels]
      else [- tail_length c..int num_pixels])"

text \<open>The head of the generator's \<open>while\<close> loop: recompute the table when the colour
  changed or no table exists.\<close>

definition comet_prepare :: "animation \<Rightarrow> comet_fields \<Rightarrow> py_error + comet_fields" where
  "comet_prepare a c =
     (if color a \<noteq> computed_color c \<or> comet_colors c = None \<or> comet_colors c = Some []
      then comet_recompute c (color a)
      else Inr c)"

text \<open>The body of the \<open>for\<close> loop up to its \<open>yield\<close>, for the position \<open>start\<close>.\<close>

definition comet_body ::
  "comet_fields \<Rightarrow> pixel_object \<Rightarrow> nat \<Rightarrow> color list option \<Rightarrow> int \<Rightarrow> py_error + pixel_object" where
  "comet_body c po num_pixels colors start =
     (case colors of
        None \<Rightarrow> Inl TypeError
      | Some cl \<Rightarrow>
          (let tl = tail_length c;
               end = (if start + tl < int num_pixels then tl else int num_pixels - start)
           in if start \<le> 0
              then (let num_visible = tl + start
                    in Inr (po_show (po\<lparr>pixels :=
                         py_set_slice (pixels po) 0 num_visible
                           (py_slice_from cl (tl - num_visible))\<rparr>)))
              else Inr (po_show (po\<lparr>pixels :=
                         py_set_slice (pixels po) start (start + end)
                           (py_slice cl 0 end)\<rparr>))))"

text \<open>What follows the \<open>for\<close> loop: count the pass, flip when bouncing, signal the cycle.\<close>

definition comet_end_pass ::
  "animation \<Rightarrow> comet_fields \<Rightarrow> int \<Rightarrow> py_error + animation \<times> comet_fields \<times> int" where
  "comet_end_pass a c cycle_passes =
     (let cp = cycle_passes + 1;
          c1 = (if bounce c then c\<lparr>comet_reverse := \<not> comet_reverse c\<rparr> else c)
      in if \<not> bounce c1 \<or> cp = 2
         then (case cycle_complete a of
                 Inl e \<Rightarrow> Inl e
               | Inr a1 \<Rightarrow> Inr (a1, c1, 0))
         else Inr (a, c1, cp))"

text \<open>
  The generator from the head of its \<open>while True\<close> loop to the next \<open>yield\<close>. A range
  that is empty sends the loop round again without a \<open>yield\<close>; \<open>None\<close> is the loop
  that never reaches one.
\<close>

partial_function (option) comet_loop ::
  "animation \<Rightarrow> comet_fields \<Rightarrow> pixel_object \<Rightarrow> nat \<Rightarrow> int \<Rightarrow>
   (py_error + animation \<times> comet_fields \<times> pixel_object) option" where
  "comet_loop a c po num_pixels cycle_passes =
     (case comet_prepare a c of
        Inl e \<Rightarrow> Some (Inl e)
      | Inr c1 \<Rightarrow>
          (let colors = (if comet_reverse c1 then reverse_comet_colors c1 else comet_colors c1)
           in case get_range c1 num_pixels of
                [] \<Rightarrow>
                  (case comet_end_pass a c1 cycle_passes of
                     Inl e \<Rightarrow> Some (Inl e)
                   | Inr (a2, c2, cp2) \<Rightarrow> comet_loop a2 c2 po num_pixels cp2)
              | start # rest \<Rightarrow>
                  (case comet_body c1 po num_pixels colors start of
                     Inl e \<Rightarrow> Some (Inl e)
                   | Inr po1 \<Rightarrow>
                       Some (Inr (a, c1\<lparr>comet_gen :=
                                CometAtYield num_pixels cycle_passes colors rest\<rparr>, po1)))))"

text \<open>\<open>Comet.draw\<close>: \<open>next(self._generator)\<close>.\<close>

definition Comet_draw ::
  "animation \<Rightarrow> comet_fields \<Rightarrow> pixel_object \<Rightarrow>
   (py_error + animation \<times> comet_fields \<times> pixel_object) option" where
  "Comet_draw a c po =
     (case comet_gen c of
        CometUnstarted \<Rightarrow> comet_loop a c po (length (pixels po)) 0
      | CometAtYield num_pixels cycle_passes colors rng \<Rightarrow>
          (case rng of
             start # rest \<Rightarrow>
               (case comet_body c po num_pixels colors start of
                  Inl e \<Rightarrow> Some (Inl e)
                | Inr po1 \<Rightarrow>
                    Some (Inr (a, c\<lparr>comet_gen :=
                             CometAtYield num_pixels cycle_passes colors rest\<rparr>, po1)))
           | [] \<Rightarrow>
               (case comet_end_pass a c cycle_passes of
                  Inl e \<Rightarrow> Some (Inl e)
                | Inr (a2, c2, cp2) \<Rightarrow> comet_loop a2 c2 po num_pixels cp2)))"

definition Comet_reset :: "comet_fields \<Rightarrow> comet_fields" where
  "Comet_reset c = c\<lparr>comet_gen := CometUnstarted, comet_reverse := initial_reverse c\<rparr>"

text \<open>\<open>Comet.__init__\<close>; \<open>0.9 / tail_length\<close> raises when \<open>tail_length\<close> is zero.\<close>

definition Comet_init ::
  "sid \<Rightarrow> pixel_object \<Rightarrow> int \<Rightarrow> color \<Rightarrow> int \<Rightarrow> bool \<Rightarrow> bool \<Rightarrow> string option \<Rightarrow>
   (int \<Rightarrow> int \<Rightarrow> int) \<Rightarrow> int \<Rightarrow> py_error + animation \<times> pixel_object" where
  "Comet_init s po speed c tail rev_arg bnc nm fd now =
     (if tail = 0 then Inl ZeroDivisionError
      else Inr (Animation_init
             (CometX \<lparr>tail_length = tail + 1, fade = fd, comet_colors = None,
                      reverse_comet_colors = None, initial_reverse = rev_arg,
                      comet_reverse = rev_arg, bounce = bnc, computed_color = c,
                      comet_gen = CometUnstarted\<rparr>)
             s po speed c None False nm now))"

section \<open>Chase\<close>

definition bar_color :: "animation \<Rightarrow> int \<Rightarrow> int \<Rightarrow> color" where
  "bar_color a n pixel_no = color a"

definition space_color :: "animation \<Rightarrow> int \<Rightarrow> int \<Rightarrow> color" where
  "space_color a n pixel_no = Packed 0"

text \<open>
  The first loop of \<open>bar_colors\<close>, over \<open>range(self._offset, 0, -1)\<close>: the colours it
  yields and the value of \<open>bar_no\<close> it ends with.
\<close>

fun offset_colors :: "animation \<Rightarrow> int \<Rightarrow> int \<Rightarrow> int list \<Rightarrow> color list \<times> int" where
  "offset_colors a sp bar_no [] = ([], bar_no)"
| "offset_colors a sp bar_no (i # rest) =
     (if i > sp
      then (case offset_colors a sp bar_no rest of
              (cs, b) \<Rightarrow> (bar_color a bar_no i # cs, b))
      else (case offset_colors a sp 1 rest of
              (cs, b) \<Rightarrow> (space_color a bar_no i # cs, b)))"

text \<open>One round of the \<open>while True\<close> loop of \<open>bar_colors\<close>.\<close>

definition one_repeat :: "animation \<Rightarrow> chase_fields \<Rightarrow> int \<Rightarrow> color list" where
  "one_repeat a c bar_no =
     map (bar_color a bar_no) [0..chase_size c - 1] @
     map (space_color a bar_no) [0..spacing c - 1]"

text \<open>
  The next \<open>m\<close> colours the \<open>while True\<close> loop yields from the round \<open>bar_no\<close> on.
  A round that yields nothing is followed by another one; \<open>None\<close> is the loop that
  never yields the colours asked for.
\<close>

partial_function (option) repeat_colors ::
  "animation \<Rightarrow> chase_fields \<Rightarrow> int \<Rightarrow> nat \<Rightarrow> color list option" where
  "repeat_colors a c bar_no m =
     (if m = 0 then Some []
      else let r = one_repeat a c bar_no
           in if m \<le> length r then Some (take m r)
              else Option.bind (repeat_colors a c (bar_no + 1) (m - length r))
                     (\<lambda>more. Some (r @ more)))"

text \<open>\<open>[next(colorgen) for _ in self.pixel_object]\<close> for a pixel object of \<open>n\<close> pixels.\<close>

definition chase_frame :: "animation \<Rightarrow> chase_fields \<Rightarrow> nat \<Rightarrow> color list option" where
  "chase_frame a c n =
     (case offset_colors a (spacing c) 0 (rev [1..offset c]) of
        (pre, bar_no) \<Rightarrow>
          if n \<le> length pre then Some (take n pre)
          else map_option ((@) pre) (repeat_colors a c bar_no (n - length pre)))"

definition Chase_draw ::
  "animation \<Rightarrow> chase_fields \<Rightarrow> pixel_object \<Rightarrow>
   (py_error + animation \<times> chase_fields \<times> pixel_object) option" where
  "Chase_draw a c po =
     (case chase_frame a c (length (pixels po)) of
        None \<Rightarrow> None
      | Some f \<Rightarrow>
          Some (let po1 = po_show (po\<lparr>pixels := f\<rparr>)
                in if length (pixels po1) = 0 then Inl ZeroDivisionError
                   else case (if draw_count a mod int (length (pixels po1)) = 0
                              then cycle_complete a else Inr a) of
                          Inl e \<Rightarrow> Inl e
                        | Inr a1 \<Rightarrow>
                            if repeat_width c = 0 then Inl ZeroDivisionError
                            else Inr (a1,
                                   c\<lparr>offset := (offset c + direction c) mod repeat_width c\<rparr>,
                                   po1)))"

text \<open>The setter of \<open>Chase.reverse\<close> and \<open>Chase.reset\<close> (the closure \<open>_resetter\<close>).\<close>

definition Chase_set_reverse :: "bool \<Rightarrow> chase_fields \<Rightarrow> chase_fields" where
  "Chase_set_reverse v c = c\<lparr>chase_reverse := v, direction := (if v then - 1 else 1)\<rparr>"

definition Chase_reset :: "chase_fields \<Rightarrow> chase_fields" where
  "Chase_reset c =
     c\<lparr>offset := 0, chase_reverse := reset_reverse c,
       direction := (if \<not> reset_reverse c then 1 else - 1)\<rparr>"

text \<open>
  \<open>Chase.__init__\<close>. \<open>len(pixel_object) / self._repeat_width\<close> raises when the width is
  zero; \<open>ceil\<close> of the quotient is written with integer division.
\<close>

definition Chase_init ::
  "sid \<Rightarrow> pixel_object \<Rightarrow> int \<Rightarrow> color \<Rightarrow> int \<Rightarrow> int \<Rightarrow> bool \<Rightarrow> string option \<Rightarrow> int \<Rightarrow>
   py_error + animation \<times> pixel_object" where
  "Chase_init s po speed c sz sp rev_arg nm now =
     (let w = sz + sp; n = int (length (pixels po))
      in if w = 0 then Inl ZeroDivisionError
         else Inr (Animation_init
                (ChaseX \<lparr>chase_size = sz, spacing = sp, repeat_width = w,
                         num_repeats = - ((- n) div w), overflow = n mod w,
                         direction = (if \<not> rev_arg then 1 else - 1),
                         chase_reverse = rev_arg, offset = 0, reset_reverse = rev_arg\<rparr>)
                s po speed c None False nm now))"

section \<open>Dispatch, the store and animate\<close>

text \<open>\<open>self.draw()\<close> and \<open>self.reset()\<close>, dispatched on the class of the object.\<close>

definition draw_obj ::
  "animation \<Rightarrow> pixel_object \<Rightarrow> (py_error + animation \<times> pixel_object) option" where
  "draw_obj a po =
     (case ext a of
        AnimationX \<Rightarrow> Some (Animation_draw a po)
      | ColorCycleX k cs g \<Rightarrow> Some (ColorCycle_draw a po)
      | CometX c \<Rightarrow>
          (case Comet_draw a c po of
             None \<Rightarrow> None
           | Some (Inl e) \<Rightarrow> Some (Inl e)
           | Some (Inr (a1, c1, po1)) \<Rightarrow> Some (Inr (a1\<lparr>ext := CometX c1\<rparr>, po1)))
      | ChaseX c \<Rightarrow>
          (case Chase_draw a c po of
             None \<Rightarrow> None
           | Some (Inl e) \<Rightarrow> Some (Inl e)
           | Some (Inr (a1, c1, po1)) \<Rightarrow> Some (Inr (a1\<lparr>ext := ChaseX c1\<rparr>, po1))))"

definition reset_obj :: "animation \<Rightarrow> animation" where
  "reset_obj a =
     (case ext a of
        AnimationX \<Rightarrow> Animation_reset a
      | ColorCycleX k cs g \<Rightarrow> ColorCycle_reset a
      | CometX c \<Rightarrow> a\<lparr>ext := CometX (Comet_reset c)\<rparr>
      | ChaseX c \<Rightarrow> a\<lparr>ext := ChaseX (Chase_reset c)\<rparr>)"

text \<open>\<open>n\<close> calls of \<open>draw\<close> on one object and its pixel object.\<close>

fun draws ::
  "nat \<Rightarrow> animation \<Rightarrow> pixel_object \<Rightarrow> (py_error + animation \<times> pixel_object) option" where
  "draws 0 a po = Some (Inr (a, po))"
| "draws (Suc n) a po =
     (case draw_obj a po of
        None \<Rightarrow> None
      | Some (Inl e) \<Rightarrow> Some (Inl e)
      | Some (Inr (a1, po1)) \<Rightarrow> draws n a1 po1)"

text \<open>
  The store: animation objects and pixel objects by identity. \<open>draw_log\<close> is a ghost
  field, the objects whose \<open>draw\<close> ran to its end, oldest first.
\<close>

record world =
  anims :: "aid \<Rightarrow> animation option"
  sinks :: "sid \<Rightarrow> pixel_object option"
  next_aid :: aid
  draw_log :: "aid list"

definition draw :: "world \<Rightarrow> aid \<Rightarrow> (py_error + world) option" where
  "draw w i =
     (case anims w i of
        None \<Rightarrow> Some (Inl NoSuchObject)
      | Some a \<Rightarrow>
          (case sinks w (pixel_object a) of
             None \<Rightarrow> Some (Inl NoSuchObject)
           | Some po \<Rightarrow>
               (case draw_obj a po of
                  None \<Rightarrow> None
                | Some (Inl e) \<Rightarrow> Some (Inl e)
                | Some (Inr (a1, po1)) \<Rightarrow>
                    Some (Inr (w\<lparr>anims := (anims w)(i \<mapsto> a1),
                                 sinks := (sinks w)(pixel_object a \<mapsto> po1),
                                 draw_log := draw_log w @ [i]\<rparr>)))))"

text \<open>\<open>for peer in self.peers: peer.draw()\<close>.\<close>

fun draw_peers :: "world \<Rightarrow> aid list \<Rightarrow> (py_error + world) option" where
  "draw_peers w [] = Some (Inr w)"
| "draw_peers w (p # ps) =
     (case draw w p of
        None \<Rightarrow> None
      | Some (Inl e) \<Rightarrow> Some (Inl e)
      | Some (Inr w1) \<Rightarrow> draw_peers w1 ps)"

definition update_anim :: "aid \<Rightarrow> (animation \<Rightarrow> animation) \<Rightarrow> world \<Rightarrow> py_error + world" where
  "update_anim i f w =
     (case anims w i of
        None \<Rightarrow> Inl NoSuchObject
      | Some a \<Rightarrow> Inr (w\<lparr>anims := (anims w)(i \<mapsto> f a)\<rparr>))"

text \<open>\<open>Animation.animate\<close> on the object \<open>i\<close>; \<open>now\<close> is the value \<open>monotonic_ns()\<close>
  returns.\<close>

definition animate :: "world \<Rightarrow> aid \<Rightarrow> int \<Rightarrow> (py_error + world \<times> bool) option" where
  "animate w i now =
     (case anims w i of
        None \<Rightarrow> Some (Inl NoSuchObject)
      | Some a \<Rightarrow>
          if paused a then Some (Inr (w, False))
          else if now < next_update a then Some (Inr (w, False))
          else (case draw w i of
                  None \<Rightarrow> None
                | Some (Inl e) \<Rightarrow> Some (Inl e)
                | Some (Inr w1) \<Rightarrow>
                    (case update_anim i (\<lambda>b. b\<lparr>draw_count := draw_count b + 1\<rparr>) w1 of
                       Inl e \<Rightarrow> Some (Inl e)
                     | Inr w2 \<Rightarrow>
                         (case anims w2 i of
                            None \<Rightarrow> Some (Inl NoSuchObject)
                          | Some a2 \<Rightarrow>
                              (case draw_peers w2 (peers a2) of
                                 None \<Rightarrow> None
                               | Some (Inl e) \<Rightarrow> Some (Inl e)
                               | Some (Inr w3) \<Rightarrow>
                                   (case update_anim i
                                           (\<lambda>b. b\<lparr>next_update := now + speed_ns b\<rparr>) w3 of
                                      Inl e \<Rightarrow> Some (Inl e)
                                    | Inr w4 \<Rightarrow> Some (Inr (w4, True))))))))"

text \<open>The calls that construct an animation, with their arguments.\<close>

datatype constructor_call =
    NewAnimation int color "aid list option" bool "string option"
  | NewColorCycle int "color list" "string option"
  | NewBlink int color "string option"
  | NewSolid color "string option"
  | NewComet int color int bool bool "string option" "int \<Rightarrow> int \<Rightarrow> int"
  | NewChase int color int int bool "string option"

definition init_obj ::
  "constructor_call \<Rightarrow> sid \<Rightarrow> pixel_object \<Rightarrow> int \<Rightarrow> py_error + animation \<times> pixel_object" where
  "init_obj call s po now =
     (case call of
        NewAnimation speed c ps p nm \<Rightarrow> Inr (Animation_init AnimationX s po speed c ps p nm now)
      | NewColorCycle speed cs nm \<Rightarrow> ColorCycle_init ColorCycleC s po speed cs nm now
      | NewBlink speed c nm \<Rightarrow> Blink_init s po speed c nm now
      | NewSolid c nm \<Rightarrow> Solid_init s po c nm now
      | NewComet speed c tail r b nm fd \<Rightarrow> Comet_init s po speed c tail r b nm fd now
      | NewChase speed c sz sp r nm \<Rightarrow> Chase_init s po speed c sz sp r nm now)"

text \<open>Constructing an animation on the pixel object \<open>s\<close> of the store: the new object
  gets the next free identity.\<close>

definition construct ::
  "world \<Rightarrow> constructor_call \<Rightarrow> sid \<Rightarrow> int \<Rightarrow> py_error + aid \<times> world" where
  "construct w call s now =
     (case sinks w s of
        None \<Rightarrow> Inl NoSuchObject
      | Some po \<Rightarrow>
          (case init_obj call s po now of
             Inl e \<Rightarrow> Inl e
           | Inr (a, po1) \<Rightarrow>
               Inr (next_aid w,
                    w\<lparr>anims := (anims w)(next_aid w \<mapsto> a),
                      sinks := (sinks w)(s \<mapsto> po1),
                      next_aid := Suc (next_aid w)\<rparr>)))"

section \<open>Calls on one object\<close>

text \<open>
  The methods a client calls on an animation, and a sequence of such calls on one
  object and its pixel object. A call that raises ends the sequence with the error; a
  call that never returns gives \<open>None\<close>.
\<close>

datatype method_call = CallDraw | CallReset | CallSetColor color | CallFreeze int
  | CallResume int | CallAddReceiver callback

definition call_obj ::
  "method_call \<Rightarrow> animation \<Rightarrow> pixel_object \<Rightarrow> (py_error + animation \<times> pixel_object) option" where
  "call_obj m a po =
     (case m of
        CallDraw \<Rightarrow> draw_obj a po
      | CallReset \<Rightarrow> Some (Inr (reset_obj a, po))
      | CallSetColor c \<Rightarrow> Some (Inr (set_color c a, po))
      | CallFreeze now \<Rightarrow> Some (Inr (freeze now a, po))
      | CallResume now \<Rightarrow> Some (Inr (resume now a, po))
      | CallAddReceiver cb \<Rightarrow> Some (Inr (add_cycle_complete_receiver cb a, po)))"

fun run ::
  "method_call list \<Rightarrow> py_error + animation \<times> pixel_object \<Rightarrow>
   (py_error + animation \<times> pixel_object) option" where
  "run [] r = Some r"
| "run (m # ms) r =
     (case r of
        Inl e \<Rightarrow> Some (Inl e)
      | Inr (a, po) \<Rightarrow>
          (case call_obj m a po of
             None \<Rightarrow> None
           | Some r1 \<Rightarrow> run ms r1))"

text \<open>What is observed of an outcome: the animation object and the frames shown.\<close>

definition anim_of :: "(py_error + animation \<times> pixel_object) option \<Rightarrow> animation option" where
  "anim_of r = (case r of Some (Inr (a, po)) \<Rightarrow> Some a | _ \<Rightarrow> None)"

definition frames_of :: "(py_error + animation \<times> pixel_object) option \<Rightarrow> color list list option" where
  "frames_of r = (case r of Some (Inr (a, po)) \<Rightarrow> Some (shown po) | _ \<Rightarrow> None)"

section \<open>Example objects\<close>

text \<open>A pixel object of \<open>n\<close> pixels that has shown nothing yet, with \<open>auto_write\<close> on.\<close>

definition sink_of :: "nat \<Rightarrow> pixel_object" where
  "sink_of n = \<lparr>pixels = replicate n PyNone, auto_write = True, shown = []\<rparr>"

definition RED :: color where "RED = Tuple [255, 0, 0]"
definition GREEN :: color where "GREEN = Tuple [0, 255, 0]"
definition BLUE :: color where "BLUE = Tuple [0, 0, 255]"

text \<open>A base animation constructed with the colour red, at time 0.\<close>

definition red_animation :: animation where
  "red_animation = fst (Animation_init AnimationX 0 (sink_of 1) 100 RED None False None 0)"

text \<open>
  The frame the specification describes for a chase: the pattern of \<open>size\<close> pixels on
  and \<open>spacing\<close> pixels off, repeated, and shifted by \<open>k\<close> pixels. Pixel \<open>j\<close> of it
  is on when \<open>(j - k) mod (size + spacing) < size\<close>; a pixel that is on has the colour
  of the animation, a pixel that is off has the colour 0.
\<close>

definition chase_pattern :: "animation \<Rightarrow> chase_fields \<Rightarrow> int \<Rightarrow> nat \<Rightarrow> color" where
  "chase_pattern a c k j =
     (if (int j - k) mod (chase_size c + spacing c) < chase_size c then color a else Packed 0)"

text \<open>The chase of size 2 and spacing 3 that \<open>Chase.__init__\<close> constructs on a pixel
  object of ten pixels with the colour red, at time 0.\<close>

definition example_chase_fields :: chase_fields where
  "example_chase_fields =
     \<lparr>chase_size = 2, spacing = 3, repeat_width = 5, num_repeats = 2, overflow = 0,
      direction = 1, chase_reverse = False, offset = 0, reset_reverse = False\<rparr>"

definition example_chase :: animation where
  "example_chase =
     \<lparr>pixel_object = 0, peers = [], speed_ns = 5, color = RED, paused = False,
      next_update = 0, time_left_at_pause = 0, also_notify = [], name = None,
      notify_cycles = 1, draw_count = 0, cycle_count = 0,
      ext = ChaseX example_chase_fields, hook_calls = [RED], notified = []\<rparr>"

text \<open>A store that holds one pixel object of ten pixels and no animation.\<close>

definition example_world :: world where
  "example_world =
     \<lparr>anims = (\<lambda>i. None), sinks = (\<lambda>s. if s = 0 then Some (sink_of 10) else None),
      next_aid = 0, draw_log = []\<rparr>"

text \<open>
  What a call of \<open>draw\<close> leaves alone in an animation: the fields that \<open>animate\<close>
  reads and writes, and the reference to the pixel object.
\<close>

definition same_schedule :: "animation \<Rightarrow> animation \<Rightarrow> bool" where
  "same_schedule a b \<longleftrightarrow>
     pixel_object b = pixel_object a \<and> peers b = peers a \<and> speed_ns b = speed_ns a
   \<and> paused b = paused a \<and> next_update b = next_update a \<and> draw_count b = draw_count a"

text \<open>Every animation of the store \<open>w\<close> is still in the store \<open>w'\<close>, with these
  fields as they were.\<close>

definition schedule_kept :: "world \<Rightarrow> world \<Rightarrow> bool" where
  "schedule_kept w w' \<longleftrightarrow>
     (\<forall>k a. anims w k = Some a \<longrightarrow> (\<exists>b. anims w' k = Some b \<and> same_schedule a b))"

text \<open>
  A store with two animations: a \<open>ColorCycle\<close> over red, green and blue, as its
  constructor leaves it at time 0 on a pixel object of two pixels, with the other
  animation assigned as its peer; and a \<open>Chase\<close> that is paused and whose next fire is
  due at time 1000.
\<close>

definition example_cycle :: animation where
  "example_cycle =
     \<lparr>pixel_object = 0, peers = [1], speed_ns = 5, color = RED, paused = False,
      next_update = 0, time_left_at_pause = 0, also_notify = [], name = None,
      notify_cycles = 1, draw_count = 0, cycle_count = 0,
      ext = ColorCycleX ColorCycleC [RED, GREEN, BLUE] (ColorAtYield 0),
      hook_calls = [RED], notified = []\<rparr>"

definition example_peer :: animation where
  "example_peer = example_chase\<lparr>pixel_object := 1, paused := True, next_update := 1000\<rparr>"

definition animate_world :: world where
  "animate_world =
     \<lparr>anims = (\<lambda>i. if i = 0 then Some example_cycle
                   else if i = 1 then Some example_peer else None),
      sinks = (\<lambda>s. if s = 0 then Some (sink_of 2)
                   else if s = 1 then Some (sink_of 10) else None),
      next_aid = 2, draw_log = []\<rparr>"

text \<open>The number of positions of one sweep of a comet constructed with the tail length
  \<open>tail\<close> on \<open>num_pixels\<close> pixels: the positions from \<open>-(tail + 1)\<close> to
  \<open>num_pixels\<close>.\<close>

definition sweep_steps :: "nat \<Rightarrow> int \<Rightarrow> nat" where
  "sweep_steps num_pixels tail = nat (int num_pixels + (tail + 1) + 1)"

text \<open>A function to stand for the floating-point ramp in the examples.\<close>

definition example_fade :: "int \<Rightarrow> int \<Rightarrow> int" where
  "example_fade c n = c * (n + 1) div 10"

text \<open>The fields of the comet that \<open>Comet.__init__\<close> constructs with the tail length
  10, not reversed and not bouncing, with the colour red.\<close>

definition example_comet_fields :: comet_fields where
  "example_comet_fields =
     \<lparr>tail_length = 11, fade = example_fade, comet_colors = None,
      reverse_comet_colors = None, initial_reverse = False, comet_reverse = False,
      bounce = False, computed_color = RED, comet_gen = CometUnstarted\<rparr>"

text \<open>
  The state of a comet after \<open>k + 1\<close> draws: its generator is suspended inside sweep
  number \<open>k div steps\<close> at position \<open>k mod steps\<close>, and the counters and the direction
  are what that many completed sweeps make them.
\<close>

definition comet_inv ::
  "nat \<Rightarrow> int \<Rightarrow> bool \<Rightarrow> bool \<Rightarrow> int list \<Rightarrow> nat \<Rightarrow> animation \<Rightarrow> bool" where
  "comet_inv n tail r0 b v k a \<longleftrightarrow>
     (\<exists>c cp colors rest.
        ext a = CometX c \<and> comet_gen c = CometAtYield n cp colors rest
      \<and> colors \<noteq> None
      \<and> length rest = sweep_steps n tail - 1 - k mod sweep_steps n tail
      \<and> tail_length c = tail + 1 \<and> 0 < tail
      \<and> color a = Tuple v \<and> notify_cycles a = 1
      \<and> (comet_colors c = None \<or> reverse_comet_colors c \<noteq> None)
      \<and> bounce c = b
      \<and> cp = (if b then int (k div sweep_steps n tail mod 2) else 0)
      \<and> cycle_count a =
            int (if b then k div sweep_steps n tail div 2 else k div sweep_steps n tail)
      \<and> comet_reverse c = (if b then r0 \<noteq> odd (k div sweep_steps n tail) else r0))"

declare comet_loop.simps [code]
declare repeat_colors.simps [code]

section \<open>The colour property\<close>

lemma normalize_color_Packed:
  "normalize_color (Packed n) = Tuple [(n div 65536) mod 256, (n div 256) mod 256, n mod 256]"
proof -
  have m: "(k::int) AND 255 = k mod 256" for k
    using take_bit_eq_mask[of 8 k] by (simp add: take_bit_eq_mod mask_eq_exp_minus_1)
  show ?thesis by (simp add: normalize_color_def m drop_bit_eq_div)
qed

lemma recompute_color_fields:
  "color (recompute_color c a) = color a"
  "hook_calls (recompute_color c a) = hook_calls a @ [c]"
  by (simp_all add: recompute_color_def Let_def split: ext.splits color_cycle_class.splits)

text \<open>
  C7, as the code has it: the setter compares the value it is given with the stored
  colour before it normalises it. A value equal to the stored colour leaves the object
  as it is, and the hook is not called. Any other value is normalised (a packed integer
  becomes the triple of its three bytes, a tuple stays as it is), stored, and the hook is
  called once with it; that includes a packed integer that denotes the stored triple.
\<close>

theorem set_color_effect:
  "(if color a = c then set_color c a = a
    else color (set_color c a) = normalize_color c
       \<and> hook_calls (set_color c a) = hook_calls a @ [normalize_color c])
   \<and> normalize_color (Packed n) = Tuple [(n div 65536) mod 256, (n div 256) mod 256, n mod 256]
   \<and> normalize_color (Tuple v) = Tuple v"
proof -
  have "normalize_color (Tuple v) = Tuple v"
    by (simp add: normalize_color_def)
  then show ?thesis
    by (simp add: normalize_color_Packed set_color_def recompute_color_fields Let_def)
qed

theorem set_color_effect_witness:
  "color red_animation = Tuple [255, 0, 0] \<and> hook_calls red_animation = [Tuple [255, 0, 0]]
   \<and> set_color (Tuple [255, 0, 0]) red_animation = red_animation
   \<and> color (set_color (Packed 65280) red_animation) = Tuple [0, 255, 0]
   \<and> hook_calls (set_color (Packed 65280) red_animation) = [Tuple [255, 0, 0], Tuple [0, 255, 0]]"
  using set_color_effect [of red_animation "Tuple [255, 0, 0]" 65280]
    set_color_effect [of red_animation "Packed 65280" 65280]
  by (simp add: red_animation_def RED_def Animation_init_def set_color_def
      recompute_color_def normalize_color_def Let_def)

text \<open>
  C7 as stated fails: the stored colour is the triple (255, 0, 0), the value assigned is
  the packed integer 0xFF0000 that denotes it, and the hook is called.
\<close>

theorem set_color_same_triple_packed_counterexample:
  "normalize_color (Packed 16711680) = color red_animation
   \<and> hook_calls (set_color (Packed 16711680) red_animation) \<noteq> hook_calls red_animation"
  by (simp add: red_animation_def RED_def Animation_init_def set_color_def
      recompute_color_def normalize_color_def Let_def)

section \<open>ColorCycle\<close>

lemmas cc_eval = ColorCycle_init_def Animation_init_def set_color_def recompute_color_def
  normalize_color_def Let_def ColorCycle_reset_def with_generator_def color_next_def
  color_yield_def cycle_complete_def ColorCycle_draw_def po_fill_def po_show_def
  draw_obj_def reset_obj_def call_obj_def anim_of_def frames_of_def sink_of_def
  RED_def GREEN_def BLUE_def

lemma ColorCycle_draw_step:
  assumes "ext a = ColorCycleX K cs (ColorAtYield i)" "i < length cs" "notify_cycles a \<noteq> 0"
  shows "\<exists>a'. draw_obj a po = Some (Inr (a', po_show (po_fill (color a) po)))
     \<and> ext a' = ColorCycleX K cs (ColorAtYield (Suc i mod length cs))
     \<and> color a' = cs ! (Suc i mod length cs)
     \<and> cycle_count a' = cycle_count a + (if Suc i mod length cs = 0 then 1 else 0)
     \<and> notify_cycles a' = notify_cycles a"
  using assms
  by (auto simp add: draw_obj_def ColorCycle_draw_def color_next_def color_yield_def
      cycle_complete_def with_generator_def Let_def)

lemma div_Suc_step: "0 < n \<Longrightarrow> int (Suc m div n) = int (m div n) + (if Suc (m mod n) mod n = 0 then 1 else 0)"
  by (auto simp add: div_Suc mod_Suc split: if_splits)

lemma ColorCycle_draws_from:
  assumes "ext a = ColorCycleX K cs (ColorAtYield (m mod length cs))" "cs \<noteq> []"
    "notify_cycles a \<noteq> 0" "color a = cs ! (m mod length cs)"
  shows "\<exists>a' po'. draws k a po = Some (Inr (a', po'))
     \<and> ext a' = ColorCycleX K cs (ColorAtYield ((m + k) mod length cs))
     \<and> color a' = cs ! ((m + k) mod length cs)
     \<and> cycle_count a' = cycle_count a + int ((m + k) div length cs) - int (m div length cs)
     \<and> notify_cycles a' = notify_cycles a
     \<and> pixels po' = (if k = 0 then pixels po else replicate (length (pixels po)) (cs ! ((m + k - 1) mod length cs)))
     \<and> auto_write po' = auto_write po
     \<and> shown po' = shown po @
          map (\<lambda>j. replicate (length (pixels po)) (cs ! ((m + j) mod length cs))) [0..<k]"
  using assms
proof (induction k arbitrary: a po m)
  case 0
  then show ?case by simp
next
  case (Suc k)
  have lt: "m mod length cs < length cs" using Suc.prems(2) by simp
  from ColorCycle_draw_step [OF Suc.prems(1) lt Suc.prems(3), of po]
  obtain a1 where d: "draw_obj a po = Some (Inr (a1, po_show (po_fill (color a) po)))"
    and e: "ext a1 = ColorCycleX K cs (ColorAtYield (Suc (m mod length cs) mod length cs))"
    and c: "color a1 = cs ! (Suc (m mod length cs) mod length cs)"
    and cc: "cycle_count a1 = cycle_count a + (if Suc (m mod length cs) mod length cs = 0 then 1 else 0)"
    and n: "notify_cycles a1 = notify_cycles a"
    by blast
  have s: "Suc (m mod length cs) mod length cs = Suc m mod length cs"
    by (simp add: mod_Suc_eq)
  let ?po1 = "po_show (po_fill (color a) po)"
  from Suc.IH [of a1 "Suc m" ?po1] e c n s Suc.prems
  obtain a' po' where r: "draws k a1 ?po1 = Some (Inr (a', po'))"
     and r1: "ext a' = ColorCycleX K cs (ColorAtYield ((Suc m + k) mod length cs))"
     and r2: "color a' = cs ! ((Suc m + k) mod length cs)"
     and r3: "cycle_count a' = cycle_count a1 + int ((Suc m + k) div length cs) - int (Suc m div length cs)"
     and r4: "notify_cycles a' = notify_cycles a1"
     and r5: "pixels po' = (if k = 0 then pixels ?po1 else replicate (length (pixels ?po1)) (cs ! ((Suc m + k - 1) mod length cs)))"
     and r6: "auto_write po' = auto_write ?po1"
     and r7: "shown po' = shown ?po1 @
          map (\<lambda>j. replicate (length (pixels ?po1)) (cs ! ((Suc m + j) mod length cs))) [0..<k]"
    by auto
  have len: "0 < length cs" using Suc.prems(2) by simp
  have cnt: "cycle_count a' = cycle_count a + int ((m + Suc k) div length cs) - int (m div length cs)"
    using r3 cc div_Suc_step [OF len, of m] s by simp
  have sh: "shown po' = shown po @
          map (\<lambda>j. replicate (length (pixels po)) (cs ! ((m + j) mod length cs))) [0..<Suc k]"
  proof -
    have "map (\<lambda>j. replicate (length (pixels po)) (cs ! ((m + j) mod length cs))) [0..<Suc k]
        = replicate (length (pixels po)) (cs ! (m mod length cs))
          # map (\<lambda>j. replicate (length (pixels po)) (cs ! ((Suc m + j) mod length cs))) [0..<k]"
      by (simp add: upt_conv_Cons map_Suc_upt [symmetric] del: upt_Suc)
    then show ?thesis
      using r7 Suc.prems(4) by (simp add: po_show_def po_fill_def)
  qed
  have px: "pixels po' = replicate (length (pixels po)) (cs ! ((m + Suc k - 1) mod length cs))"
    using r5 Suc.prems(4) by (simp add: po_show_def po_fill_def)
  show ?case
    using d r r1 r2 cnt r4 n px r6 sh by (simp add: po_show_def po_fill_def)
qed

lemma ColorCycle_init_state:
  assumes "cs \<noteq> []"
  shows "\<exists>a0. ColorCycle_init ColorCycleC s po speed cs nm now = Inr (a0, po\<lparr>auto_write := False\<rparr>)
     \<and> ext a0 = ColorCycleX ColorCycleC cs (ColorAtYield 0) \<and> color a0 = cs ! 0
     \<and> notify_cycles a0 = 1 \<and> cycle_count a0 = 0"
  using assms
  by (cases cs) (auto simp add: ColorCycle_init_def Animation_init_def set_color_def recompute_color_def
      Let_def ColorCycle_reset_def with_generator_def color_next_def color_yield_def)

text \<open>
  C8: a \<open>ColorCycle\<close> constructed with a colour list that is not empty draws without
  an error any number of times. Draw number \<open>j\<close> (counted from 0) fills the pixel object
  with colour \<open>j mod length\<close> of the list and shows it; after \<open>k\<close> draws
  \<open>cycle_count\<close> is \<open>k div length\<close>, so it grows by one each time the index wraps to
  zero. For the list A, B, C and three draws: the frames shown are A, B, C and
  \<open>cycle_count\<close> is 1.
\<close>

theorem ColorCycle_draws_cycle:
  assumes "cs \<noteq> []"
  shows "\<exists>a0 po0 a1 po1.
      ColorCycle_init ColorCycleC s po speed cs nm now = Inr (a0, po0)
    \<and> draws k a0 po0 = Some (Inr (a1, po1))
    \<and> cycle_count a1 = int (k div length cs)
    \<and> color a1 = cs ! (k mod length cs)
    \<and> shown po1 = shown po @
         map (\<lambda>j. replicate (length (pixels po)) (cs ! (j mod length cs))) [0..<k]"
proof -
  from ColorCycle_init_state [OF assms, of s po speed nm now]
  obtain a0 where i: "ColorCycle_init ColorCycleC s po speed cs nm now = Inr (a0, po\<lparr>auto_write := False\<rparr>)"
    and e: "ext a0 = ColorCycleX ColorCycleC cs (ColorAtYield 0)" and c: "color a0 = cs ! 0"
    and n: "notify_cycles a0 = 1" and z: "cycle_count a0 = 0"
    by blast
  from ColorCycle_draws_from [of a0 ColorCycleC cs 0 k "po\<lparr>auto_write := False\<rparr>"] e c n assms
  obtain a1 po1 where "draws k a0 (po\<lparr>auto_write := False\<rparr>) = Some (Inr (a1, po1))"
    "cycle_count a1 = cycle_count a0 + int (k div length cs)"
    "color a1 = cs ! (k mod length cs)"
    "shown po1 = shown po @ map (\<lambda>j. replicate (length (pixels po)) (cs ! (j mod length cs))) [0..<k]"
    by auto
  with i z show ?thesis by auto
qed


theorem ColorCycle_draws_cycle_witness:
  "[RED, GREEN, BLUE] \<noteq> [] \<and> (\<exists>a0 po0 a1 po1.
      ColorCycle_init ColorCycleC 0 (sink_of 2) 5 [RED, GREEN, BLUE] None 0 = Inr (a0, po0)
    \<and> draws 3 a0 po0 = Some (Inr (a1, po1))
    \<and> cycle_count a1 = 1
    \<and> color a1 = RED
    \<and> shown po1 = [[RED, RED], [GREEN, GREEN], [BLUE, BLUE]])"
proof -
  have f: "shown (sink_of 2) @ map (\<lambda>j. replicate (length (pixels (sink_of 2)))
              ([RED, GREEN, BLUE] ! (j mod length [RED, GREEN, BLUE]))) [0..<3]
           = [[RED, RED], [GREEN, GREEN], [BLUE, BLUE]]"
    by code_simp
  have d: "int (3 div length [RED, GREEN, BLUE]) = 1" "[RED, GREEN, BLUE] ! (3 mod length [RED, GREEN, BLUE]) = RED"
    by simp_all
  show ?thesis
    using ColorCycle_draws_cycle [of "[RED, GREEN, BLUE]" 0 "sink_of 2" 5 None 0 3]
    unfolding f d by simp
qed


text \<open>
  C6: after \<open>reset()\<close> the first draw should show the first colour of the list. With
  the list red, green, blue: the first draw shows red, then \<open>reset()\<close> is called, and the
  next draw shows green. \<open>reset\<close> creates a new generator but does not run it to its
  first \<open>yield\<close> as \<open>__init__\<close> does, so \<open>_color\<close> keeps the value the old generator
  left there.
\<close>

theorem ColorCycle_reset_then_draw_shows_next_color:
  "frames_of (run [CallDraw, CallReset, CallDraw]
      (ColorCycle_init ColorCycleC 0 (sink_of 2) 5 [RED, GREEN, BLUE] None 0))
   = Some [[RED, RED], [GREEN, GREEN]]"
  by (simp add: cc_eval numeral_2_eq_2)

lemma ColorCycle_init_isl: "isl (ColorCycle_init k s po speed cs nm now) \<longleftrightarrow> cs = []"
  by (cases cs; cases k)
     (simp_all add: ColorCycle_init_def Animation_init_def set_color_def recompute_color_def
      Let_def ColorCycle_reset_def with_generator_def color_next_def color_yield_def BLACK_def)

section \<open>Chase\<close>

lemma repeat_colors_length:
  assumes "repeat_colors a c b m = Some xs"
  shows "length xs = m"
proof (rule repeat_colors.raw_induct [where P = "\<lambda>a c b m xs. length xs = m", OF _ assms])
  fix rc :: "animation \<Rightarrow> chase_fields \<Rightarrow> int \<Rightarrow> nat \<Rightarrow> color list option"
  fix a c b m xs
  assume IH: "\<And>a c b m xs. rc a c b m = Some xs \<Longrightarrow> length xs = m"
  assume eq: "(if m = 0 then Some []
      else let r = one_repeat a c b
           in if m \<le> length r then Some (take m r)
              else Option.bind (rc a c (b + 1) (m - length r)) (\<lambda>more. Some (r @ more))) = Some xs"
  show "length xs = m"
  proof (cases "m = 0")
    case True
    with eq show ?thesis by auto
  next
    case False
    show ?thesis
    proof (cases "m \<le> length (one_repeat a c b)")
      case True
      with eq False show ?thesis by (auto simp add: Let_def)
    next
      case big: False
      with eq False obtain more where
        m: "rc a c (b + 1) (m - length (one_repeat a c b)) = Some more"
        and x: "xs = one_repeat a c b @ more"
        by (auto simp add: Let_def bind_eq_Some_conv)
      from IH [OF m] x big show ?thesis by simp
    qed
  qed
qed

lemma one_repeat_eq:
  "one_repeat a c b = replicate (nat (chase_size c)) (color a) @ replicate (nat (spacing c)) (Packed 0)"
proof -
  have "map (bar_color a b) [0..chase_size c - 1] = replicate (nat (chase_size c)) (color a)"
    by (rule nth_equalityI) (simp_all add: bar_color_def)
  moreover have "map (space_color a b) [0..spacing c - 1] = replicate (nat (spacing c)) (Packed 0)"
    by (rule nth_equalityI) (simp_all add: space_color_def)
  ultimately show ?thesis by (simp add: one_repeat_def)
qed

lemma one_repeat_pattern:
  assumes "0 \<le> chase_size c" "0 \<le> spacing c"
  shows "one_repeat a c b = map (chase_pattern a c 0) [0..<nat (chase_size c + spacing c)]"
proof (rule nth_equalityI)
  show "length (one_repeat a c b) = length (map (chase_pattern a c 0) [0..<nat (chase_size c + spacing c)])"
    using assms by (simp add: one_repeat_eq nat_add_distrib)
next
  fix i assume "i < length (one_repeat a c b)"
  then have i: "int i < chase_size c + spacing c"
    using assms by (simp add: one_repeat_eq)
  then have "int i mod (chase_size c + spacing c) = int i" by simp
  then show "one_repeat a c b ! i = map (chase_pattern a c 0) [0..<nat (chase_size c + spacing c)] ! i"
    using i assms by (auto simp add: one_repeat_eq nth_append chase_pattern_def)
qed

lemma chase_pattern_shift:
  "chase_pattern a c k (j + nat w) = chase_pattern a c (k - w) j" if "0 \<le> w"
  using that by (simp add: chase_pattern_def algebra_simps)

lemma chase_pattern_period:
  "chase_pattern a c (k - (chase_size c + spacing c)) j = chase_pattern a c k j"
proof -
  have "(int j - (k - (chase_size c + spacing c))) mod (chase_size c + spacing c)
      = (int j - k) mod (chase_size c + spacing c)"
    by (metis add.commute diff_diff_eq2 mod_add_self2 add_diff_eq)
  then show ?thesis by (simp add: chase_pattern_def)
qed

lemma repeat_colors_pattern:
  assumes "0 \<le> chase_size c" "0 \<le> spacing c" "0 < chase_size c + spacing c"
  shows "repeat_colors a c b m = Some (map (chase_pattern a c 0) [0..<m])"
proof (induction m arbitrary: b rule: less_induct)
  case (less m)
  let ?w = "nat (chase_size c + spacing c)"
  have r: "one_repeat a c b = map (chase_pattern a c 0) [0..<?w]"
    using assms by (simp add: one_repeat_pattern)
  have lr: "length (one_repeat a c b) = ?w" by (simp add: r)
  show ?case
  proof (cases "m = 0")
    case True
    then show ?thesis by (subst repeat_colors.simps) simp
  next
    case False
    show ?thesis
    proof (cases "m \<le> ?w")
      case True
      then have "take m (one_repeat a c b) = map (chase_pattern a c 0) [0..<m]"
        by (simp add: r take_map min_def)
      with False True lr show ?thesis
        by (subst repeat_colors.simps) (simp add: Let_def)
    next
      case big: False
      have wpos: "0 < ?w" using assms by simp
      then have "m - ?w < m" using False by simp
      from less [OF this, of "b + 1"]
      have rec: "repeat_colors a c (b + 1) (m - ?w) = Some (map (chase_pattern a c 0) [0..<m - ?w])" .
      have "map (chase_pattern a c 0) [0..<m - ?w] = map (chase_pattern a c 0) [?w..<m]"
      proof -
        have "[?w..<m] = map (\<lambda>i. i + ?w) [0..<m - ?w]"
          using big by (simp add: map_add_upt)
        then have "map (chase_pattern a c 0) [?w..<m] = map (\<lambda>j. chase_pattern a c 0 (j + ?w)) [0..<m - ?w]"
          by (simp add: comp_def)
        also have "\<dots> = map (chase_pattern a c 0) [0..<m - ?w]"
          using assms chase_pattern_shift [of "chase_size c + spacing c" a c 0]
            chase_pattern_period [of a c 0] by simp
        finally show ?thesis by simp
      qed
      moreover have "[0..<m] = [0..<?w] @ [?w..<m]"
        using big by (metis le_add_diff_inverse nat_le_linear upt_add_eq_append zero_le)
      ultimately have "one_repeat a c b @ map (chase_pattern a c 0) [0..<m - ?w]
            = map (chase_pattern a c 0) [0..<m]"
        by (simp add: r)
      with False big lr rec show ?thesis
        by (subst repeat_colors.simps) (simp add: Let_def)
    qed
  qed
qed

lemma offset_colors_fst:
  "fst (offset_colors a sp b xs) = map (\<lambda>i. if i > sp then color a else Packed 0) xs"
  by (induction xs arbitrary: b) (simp_all add: bar_color_def space_color_def split_beta)

lemma rev_upto_nth:
  assumes "j < nat k"
  shows "rev [1..k] ! j = k - int j"
proof -
  have "1 + int (nat k - Suc j) \<le> k" using assms by linarith
  then have "[1..k] ! (nat k - Suc j) = 1 + int (nat k - Suc j)" by (rule nth_upto)
  also have "\<dots> = k - int j" using assms by linarith
  finally show ?thesis using assms by (simp add: rev_nth)
qed

lemma offset_colors_pattern:
  assumes "0 \<le> chase_size c" "0 \<le> spacing c" "0 \<le> offset c" "offset c < chase_size c + spacing c"
  shows "fst (offset_colors a (spacing c) b (rev [1..offset c]))
         = map (chase_pattern a c (offset c)) [0..<nat (offset c)]"
proof (rule nth_equalityI)
  show "length (fst (offset_colors a (spacing c) b (rev [1..offset c])))
      = length (map (chase_pattern a c (offset c)) [0..<nat (offset c)])"
    by (simp add: offset_colors_fst)
next
  fix j assume "j < length (fst (offset_colors a (spacing c) b (rev [1..offset c])))"
  then have j: "j < nat (offset c)" by (simp add: offset_colors_fst)
  let ?w = "chase_size c + spacing c"
  have "(int j - offset c) mod ?w = (int j - offset c + ?w) mod ?w" by simp
  also have "\<dots> = int j - offset c + ?w"
    using j assms by (intro mod_pos_pos_trivial) auto
  finally have m: "(int j - offset c) mod ?w = int j - offset c + ?w" .
  show "fst (offset_colors a (spacing c) b (rev [1..offset c])) ! j
      = map (chase_pattern a c (offset c)) [0..<nat (offset c)] ! j"
    using j by (auto simp add: offset_colors_fst rev_upto_nth chase_pattern_def m)
qed

lemma chase_frame_pattern:
  assumes "0 \<le> chase_size c" "0 \<le> spacing c" "0 \<le> offset c" "offset c < chase_size c + spacing c"
  shows "chase_frame a c n = Some (map (chase_pattern a c (offset c)) [0..<n])"
proof -
  let ?k = "nat (offset c)"
  obtain pre b where ob: "offset_colors a (spacing c) 0 (rev [1..offset c]) = (pre, b)"
    by (cases "offset_colors a (spacing c) 0 (rev [1..offset c])")
  then have pre: "pre = map (chase_pattern a c (offset c)) [0..<?k]"
    using offset_colors_pattern [OF assms, of a 0] by simp
  then have lp: "length pre = ?k" by simp
  show ?thesis
  proof (cases "n \<le> ?k")
    case True
    then have "take n pre = map (chase_pattern a c (offset c)) [0..<n]"
      by (simp add: pre take_map min_def)
    with True ob lp show ?thesis by (simp add: chase_frame_def)
  next
    case False
    have pos: "0 < chase_size c + spacing c" using assms by simp
    have rc: "repeat_colors a c b (n - ?k) = Some (map (chase_pattern a c 0) [0..<n - ?k])"
      using repeat_colors_pattern [OF assms(1,2) pos] .
    have "[?k..<n] = map (\<lambda>i. i + ?k) [0..<n - ?k]"
      using False by (simp add: map_add_upt)
    then have "map (chase_pattern a c (offset c)) [?k..<n]
        = map (\<lambda>j. chase_pattern a c (offset c) (j + ?k)) [0..<n - ?k]"
      by (simp add: comp_def)
    also have "\<dots> = map (chase_pattern a c 0) [0..<n - ?k]"
      using assms(3) chase_pattern_shift [of "offset c" a c "offset c"] by simp
    finally have "map (chase_pattern a c 0) [0..<n - ?k] = map (chase_pattern a c (offset c)) [?k..<n]"
      by simp
    moreover have "[0..<n] = [0..<?k] @ [?k..<n]"
      using False by (metis le_add_diff_inverse nat_le_linear upt_add_eq_append zero_le)
    ultimately have "pre @ map (chase_pattern a c 0) [0..<n - ?k]
        = map (chase_pattern a c (offset c)) [0..<n]"
      by (simp add: pre)
    with False ob lp rc show ?thesis by (simp add: chase_frame_def)
  qed
qed

lemma chase_frame_length: "chase_frame a c n = Some f \<Longrightarrow> length f = n"
  by (auto simp add: chase_frame_def split: prod.splits if_splits dest: repeat_colors_length)

lemma cycle_complete_count:
  "cycle_complete a = Inr a' \<Longrightarrow> cycle_count a' = cycle_count a + 1 \<and> draw_count a' = draw_count a"
  by (auto simp add: cycle_complete_def Let_def split: if_splits)

text \<open>
  C5: a draw of a \<open>Chase\<close> that returns has gone through the check
  \<open>draw_count % len(pixel_object) == 0\<close>, on a pixel object that is not empty, and has
  called \<open>cycle_complete\<close> (which adds one to \<open>cycle_count\<close>) exactly when
  \<open>draw_count\<close> is a multiple of the number of pixels; \<open>draw\<close> itself leaves
  \<open>draw_count\<close> as it is.
\<close>

theorem Chase_draw_signals_on_multiples:
  assumes "ext a = ChaseX c" and "draw_obj a po = Some (Inr (a', po'))"
  shows "pixels po \<noteq> []
     \<and> cycle_count a' = cycle_count a
          + (if draw_count a mod int (length (pixels po)) = 0 then 1 else 0)
     \<and> draw_count a' = draw_count a"
proof -
  from assms obtain a1 c1 where d: "Chase_draw a c po = Some (Inr (a1, c1, po'))"
    and a': "a' = a1\<lparr>ext := ChaseX c1\<rparr>"
    by (auto simp add: draw_obj_def split: option.splits sum.splits)
  from d obtain f where f: "chase_frame a c (length (pixels po)) = Some f"
    by (auto simp add: Chase_draw_def split: option.splits)
  then have lf: "length f = length (pixels po)" by (rule chase_frame_length)
  from d f lf have ne: "pixels po \<noteq> []"
    by (auto simp add: Chase_draw_def po_show_def Let_def split: if_splits)
  from d f lf ne have
    "(if draw_count a mod int (length (pixels po)) = 0 then cycle_complete a else Inr a) = Inr a1"
    by (auto simp add: Chase_draw_def po_show_def Let_def split: if_splits sum.splits)
  then have "cycle_count a1 = cycle_count a
          + (if draw_count a mod int (length (pixels po)) = 0 then 1 else 0)
     \<and> draw_count a1 = draw_count a"
    by (auto split: if_splits dest: cycle_complete_count)
  with ne a' show ?thesis by simp
qed

lemma cycle_complete_returns:
  "notify_cycles a \<noteq> 0 \<Longrightarrow> \<exists>a'. cycle_complete a = Inr a' \<and> color a' = color a \<and> ext a' = ext a"
  by (simp add: cycle_complete_def Let_def)

text \<open>
  C4: for a \<open>Chase\<close> with \<open>size\<close> and \<open>spacing\<close> not negative and not both zero,
  and an offset \<open>k\<close> with \<open>0 \<le> k < size + spacing\<close>, \<open>draw\<close> returns, and the frame
  it writes and shows is the pattern of \<open>size\<close> pixels on and \<open>spacing\<close> pixels off
  shifted by \<open>k\<close>: pixel \<open>j\<close> is on when \<open>(j - k) mod (size + spacing) < size\<close>. The
  offset then moves on by \<open>direction\<close>. For size 2, spacing 3 and ten pixels the frame
  at offset 0 is on, on, off, off, off, twice.
\<close>

theorem Chase_draw_frame:
  assumes "ext a = ChaseX c" "0 \<le> chase_size c" "0 \<le> spacing c"
    "repeat_width c = chase_size c + spacing c"
    "0 \<le> offset c" "offset c < repeat_width c" "pixels po \<noteq> []" "notify_cycles a \<noteq> 0"
  shows "\<exists>a' c' po'. draw_obj a po = Some (Inr (a', po')) \<and> ext a' = ChaseX c'
     \<and> offset c' = (offset c + direction c) mod repeat_width c
     \<and> pixels po' = map (chase_pattern a c (offset c)) [0..<length (pixels po)]
     \<and> shown po' = shown po @ [pixels po']"
proof -
  have f: "chase_frame a c (length (pixels po))
      = Some (map (chase_pattern a c (offset c)) [0..<length (pixels po)])"
    using assms by (intro chase_frame_pattern) auto
  obtain a1 where a1: "(if draw_count a mod int (length (pixels po)) = 0
       then cycle_complete a else Inr a) = Inr a1"
    using cycle_complete_returns [OF assms(8)] by (cases "draw_count a mod int (length (pixels po)) = 0") auto
  have w: "repeat_width c \<noteq> 0" using assms by auto
  show ?thesis
    using assms(1,7) f a1 w
    by (simp add: draw_obj_def Chase_draw_def po_show_def Let_def)
qed

lemma example_chase_init:
  "Chase_init 0 (sink_of 10) 5 RED 2 3 False None 0 =
   Inr (example_chase, (sink_of 10)\<lparr>auto_write := False\<rparr>)"
  apply (simp add: Chase_init_def Let_def sink_of_def example_chase_fields_def example_chase_def)
  apply (simp add: Animation_init_def set_color_def RED_def normalize_color_def)
  apply (simp add: recompute_color_def Let_def)
  done

lemma example_pattern:
  "map (chase_pattern example_chase example_chase_fields 0) [0..<10]
   = [RED, RED, Packed 0, Packed 0, Packed 0, RED, RED, Packed 0, Packed 0, Packed 0]"
  "map (chase_pattern example_chase (example_chase_fields\<lparr>offset := 1\<rparr>) 1) [0..<10]
   = [Packed 0, RED, RED, Packed 0, Packed 0, Packed 0, RED, RED, Packed 0, Packed 0]"
  by code_simp+

theorem Chase_draw_frame_witness:
  "(\<exists>a' c' po'. draw_obj example_chase (sink_of 10) = Some (Inr (a', po'))
      \<and> ext a' = ChaseX c' \<and> offset c' = 1
      \<and> pixels po' = [RED, RED, Packed 0, Packed 0, Packed 0, RED, RED, Packed 0, Packed 0, Packed 0]
      \<and> shown po' = [pixels po'])
   \<and> (\<exists>a' c' po'. draw_obj (example_chase\<lparr>ext := ChaseX (example_chase_fields\<lparr>offset := 1\<rparr>)\<rparr>)
          (sink_of 10) = Some (Inr (a', po'))
      \<and> ext a' = ChaseX c' \<and> offset c' = 2
      \<and> pixels po' = [Packed 0, RED, RED, Packed 0, Packed 0, Packed 0, RED, RED, Packed 0, Packed 0]
      \<and> shown po' = [pixels po'])"
proof -
  let ?c1 = "example_chase_fields\<lparr>offset := 1\<rparr>"
  let ?a1 = "example_chase\<lparr>ext := ChaseX ?c1\<rparr>"
  have e: "ext example_chase = ChaseX example_chase_fields" "ext ?a1 = ChaseX ?c1"
    by (simp_all add: example_chase_def)
  have h0: "0 \<le> chase_size example_chase_fields" "0 \<le> spacing example_chase_fields"
    "repeat_width example_chase_fields = chase_size example_chase_fields + spacing example_chase_fields"
    "0 \<le> offset example_chase_fields" "offset example_chase_fields < repeat_width example_chase_fields"
    "pixels (sink_of 10) \<noteq> []" "notify_cycles example_chase \<noteq> 0"
    by (simp_all add: example_chase_fields_def sink_of_def example_chase_def)
  have h1: "0 \<le> chase_size ?c1" "0 \<le> spacing ?c1"
    "repeat_width ?c1 = chase_size ?c1 + spacing ?c1"
    "0 \<le> offset ?c1" "offset ?c1 < repeat_width ?c1"
    "pixels (sink_of 10) \<noteq> []" "notify_cycles ?a1 \<noteq> 0"
    by (simp_all add: example_chase_fields_def sink_of_def example_chase_def)
  have v: "offset example_chase_fields = 0" "direction example_chase_fields = 1"
    "repeat_width example_chase_fields = 5" "length (pixels (sink_of 10)) = 10"
    "shown (sink_of 10) = []" "color ?a1 = color example_chase"
    by (simp_all add: example_chase_fields_def sink_of_def)
  have p1: "chase_pattern ?a1 ?c1 1 = chase_pattern example_chase ?c1 1"
    by (rule ext) (simp add: chase_pattern_def)
  have A: "\<exists>a' c' po'. draw_obj example_chase (sink_of 10) = Some (Inr (a', po'))
      \<and> ext a' = ChaseX c' \<and> offset c' = 1
      \<and> pixels po' = [RED, RED, Packed 0, Packed 0, Packed 0, RED, RED, Packed 0, Packed 0, Packed 0]
      \<and> shown po' = [pixels po']"
    using Chase_draw_frame [OF e(1) h0] by (simp add: v example_pattern(1))
  have B: "\<exists>a' c' po'. draw_obj ?a1 (sink_of 10) = Some (Inr (a', po'))
      \<and> ext a' = ChaseX c' \<and> offset c' = 2
      \<and> pixels po' = [Packed 0, RED, RED, Packed 0, Packed 0, Packed 0, RED, RED, Packed 0, Packed 0]
      \<and> shown po' = [pixels po']"
    using Chase_draw_frame [OF e(2) h1] by (simp add: v p1 example_pattern(2))
  from A B show ?thesis by blast
qed

theorem Chase_draw_signals_on_multiples_witness:
  "ext example_chase = ChaseX example_chase_fields
   \<and> (\<exists>a' po'. draw_obj example_chase (sink_of 10) = Some (Inr (a', po'))
        \<and> cycle_count a' = 1)
   \<and> (\<exists>a' po'. draw_obj (example_chase\<lparr>draw_count := 3\<rparr>) (sink_of 10) = Some (Inr (a', po'))
        \<and> cycle_count a' = 0)"
proof -
  let ?a3 = "example_chase\<lparr>draw_count := 3\<rparr>"
  have e: "ext example_chase = ChaseX example_chase_fields" "ext ?a3 = ChaseX example_chase_fields"
    by (simp_all add: example_chase_def)
  have f: "chase_frame a example_chase_fields 10 = Some (map (chase_pattern a example_chase_fields (offset example_chase_fields)) [0..<10])" for a
    by (rule chase_frame_pattern) (simp_all add: example_chase_fields_def)
  obtain a0 po0 where d0: "draw_obj example_chase (sink_of 10) = Some (Inr (a0, po0))"
    by (simp add: draw_obj_def e Chase_draw_def f sink_of_def po_show_def Let_def)
       (simp add: example_chase_def example_chase_fields_def cycle_complete_def Let_def)
  obtain a3 po3 where d3: "draw_obj ?a3 (sink_of 10) = Some (Inr (a3, po3))"
    by (simp add: draw_obj_def e Chase_draw_def f sink_of_def po_show_def Let_def)
       (simp add: example_chase_def example_chase_fields_def cycle_complete_def Let_def)
  have v: "cycle_count example_chase = 0" "draw_count example_chase = 0" "length (pixels (sink_of 10)) = 10"
     "cycle_count ?a3 = 0" "draw_count ?a3 = 3"
    by (simp_all add: example_chase_def sink_of_def)
  from Chase_draw_signals_on_multiples [OF e(1) d0] Chase_draw_signals_on_multiples [OF e(2) d3] d0 d3 e(1)
  show ?thesis by (simp add: v)
qed

section \<open>Construction\<close>

lemma Chase_init_isl: "isl (Chase_init s po speed c sz sp r nm now) \<longleftrightarrow> sz + sp = 0"
  by (simp add: Chase_init_def Let_def)

lemma Chase_init_state:
  assumes "Chase_init s po speed c sz sp r nm now = Inr (a, po1)"
  shows "po1 = po\<lparr>auto_write := False\<rparr>"
    and "\<exists>cf. ext a = ChaseX cf \<and> offset cf = 0"
    and "draw_count a = 0"
  using assms
  by (auto simp add: Chase_init_def Let_def Animation_init_def set_color_def
      recompute_color_def split: if_splits)

lemma Chase_draw_empty:
  assumes "ext a = ChaseX cf" "offset cf = 0" "pixels po = []"
  shows "draw_obj a po = Some (Inl ZeroDivisionError)"
  using assms
  by (simp add: draw_obj_def Chase_draw_def chase_frame_def po_show_def Let_def)

text \<open>
  C9, as the code has it: a \<open>ColorCycle\<close> (and so a \<open>Blink\<close> or \<open>Solid\<close>) given an
  empty colour list fails in its constructor, with the \<open>IndexError\<close> of \<open>colors[0]\<close>.
  The number of pixels is not looked at: with a colour list that is not empty a
  \<open>ColorCycle\<close> is constructed on any pixel object, and a \<open>Chase\<close> whose size and spacing
  do not add up to zero is constructed on any pixel object. A \<open>Chase\<close> constructed on a
  pixel object without pixels raises \<open>ZeroDivisionError\<close> in its first draw.
\<close>

theorem construction_checks:
  "ColorCycle_init k s po speed [] nm now = Inl IndexError
   \<and> (cs \<noteq> [] \<longrightarrow> \<not> isl (ColorCycle_init k s po speed cs nm now))
   \<and> (sz + sp \<noteq> 0 \<longrightarrow> \<not> isl (Chase_init s po speed c sz sp r nm now))
   \<and> (pixels po = [] \<longrightarrow> Chase_init s po speed c sz sp r nm now = Inr (a, po1) \<longrightarrow>
        draw_obj a po1 = Some (Inl ZeroDivisionError))"
proof -
  have "draw_obj a po1 = Some (Inl ZeroDivisionError)"
    if "pixels po = []" "Chase_init s po speed c sz sp r nm now = Inr (a, po1)"
  proof -
    from Chase_init_state [OF that(2)] obtain cf where
      "po1 = po\<lparr>auto_write := False\<rparr>" "ext a = ChaseX cf" "offset cf = 0"
      by blast
    with that(1) show ?thesis by (intro Chase_draw_empty) auto
  qed
  then show ?thesis
    by (simp add: ColorCycle_init_isl Chase_init_isl) (simp add: ColorCycle_init_def)
qed

lemma example_chase_init_empty:
  "Chase_init 0 (sink_of 0) 5 RED 2 3 False None 0 =
   Inr (example_chase\<lparr>ext := ChaseX (example_chase_fields\<lparr>num_repeats := 0\<rparr>)\<rparr>,
        (sink_of 0)\<lparr>auto_write := False\<rparr>)"
  apply (simp add: Chase_init_def Let_def sink_of_def example_chase_fields_def example_chase_def)
  apply (simp add: Animation_init_def set_color_def RED_def normalize_color_def)
  apply (simp add: recompute_color_def Let_def)
  done

theorem construction_checks_witness:
  "[RED] \<noteq> [] \<and> 2 + 3 \<noteq> (0::int) \<and> pixels (sink_of 0) = []
   \<and> ColorCycle_init ColorCycleC 0 (sink_of 0) 5 [] None 0 = Inl IndexError
   \<and> \<not> isl (ColorCycle_init ColorCycleC 0 (sink_of 0) 5 [RED] None 0)
   \<and> \<not> isl (Chase_init 0 (sink_of 0) 5 RED 2 3 False None 0)
   \<and> draw_obj (example_chase\<lparr>ext := ChaseX (example_chase_fields\<lparr>num_repeats := 0\<rparr>)\<rparr>)
        ((sink_of 0)\<lparr>auto_write := False\<rparr>) = Some (Inl ZeroDivisionError)"
  using construction_checks [of ColorCycleC 0 "sink_of 0" 5 None 0 "[RED]" 2 3 RED False
      "example_chase\<lparr>ext := ChaseX (example_chase_fields\<lparr>num_repeats := 0\<rparr>)\<rparr>"
      "(sink_of 0)\<lparr>auto_write := False\<rparr>"]
    example_chase_init_empty
  by (simp add: sink_of_def)

text \<open>
  C9 as stated fails: on a pixel object without pixels a \<open>Chase\<close> and a \<open>ColorCycle\<close>
  are constructed, and the \<open>Chase\<close> fails later, in its first draw.
\<close>

theorem zero_length_sink_constructs_counterexample:
  "length (pixels (sink_of 0)) = 0
   \<and> \<not> isl (Chase_init 0 (sink_of 0) 5 RED 2 3 False None 0)
   \<and> \<not> isl (ColorCycle_init ColorCycleC 0 (sink_of 0) 5 [RED] None 0)
   \<and> run [CallDraw] (Chase_init 0 (sink_of 0) 5 RED 2 3 False None 0)
       = Some (Inl ZeroDivisionError)"
proof -
  have "draw_obj (example_chase\<lparr>ext := ChaseX (example_chase_fields\<lparr>num_repeats := 0\<rparr>)\<rparr>)
        ((sink_of 0)\<lparr>auto_write := False\<rparr>) = Some (Inl ZeroDivisionError)"
    by (rule Chase_draw_empty [where cf = "example_chase_fields\<lparr>num_repeats := 0\<rparr>"])
       (simp_all add: example_chase_def example_chase_fields_def sink_of_def)
  then show ?thesis
    by (simp add: example_chase_init_empty ColorCycle_init_isl call_obj_def) (simp add: sink_of_def)
qed

lemma init_obj_sink:
  assumes "init_obj call s po now = Inr (a, po1)"
  shows "po1 = po\<lparr>auto_write := False\<rparr>"
proof (cases call)
  case (NewAnimation speed c ps p nm)
  with assms show ?thesis by (simp add: init_obj_def Animation_init_def)
next
  case (NewColorCycle speed cs nm)
  with assms show ?thesis
    by (auto simp add: init_obj_def ColorCycle_init_def Animation_init_def Let_def
        split: list.splits ext.splits sum.splits prod.splits)
next
  case (NewBlink speed c nm)
  with assms show ?thesis
    by (auto simp add: init_obj_def Blink_init_def ColorCycle_init_def Animation_init_def Let_def
        split: list.splits ext.splits sum.splits prod.splits)
next
  case (NewSolid c nm)
  with assms show ?thesis
    by (auto simp add: init_obj_def Solid_init_def ColorCycle_init_def Animation_init_def Let_def
        split: list.splits ext.splits sum.splits prod.splits)
next
  case (NewComet speed c tail r b nm fd)
  with assms show ?thesis
    by (auto simp add: init_obj_def Comet_init_def Animation_init_def split: if_splits)
next
  case (NewChase speed c sz sp r nm)
  with assms show ?thesis
    by (auto simp add: init_obj_def Chase_init_def Animation_init_def Let_def split: if_splits)
qed

lemma set_color_pixel_object: "pixel_object (set_color c a) = pixel_object a"
  by (simp add: set_color_def recompute_color_def Let_def split: ext.splits color_cycle_class.splits)

lemma Animation_init_pixel_object:
  "pixel_object (fst (Animation_init x s po speed c ps p nm now)) = s"
  by (simp add: Animation_init_def set_color_pixel_object)

lemma with_generator_pixel_object: "pixel_object (with_generator a g) = pixel_object a"
  by (simp add: with_generator_def split: ext.splits)

lemma cycle_complete_pixel_object:
  "cycle_complete a = Inr a' \<Longrightarrow> pixel_object a' = pixel_object a"
  by (auto simp add: cycle_complete_def Let_def split: if_splits)

lemma color_next_pixel_object:
  "color_next a cs g = Inr (a', g') \<Longrightarrow> pixel_object a' = pixel_object a"
  by (auto simp add: color_next_def color_yield_def Let_def
      split: color_generator.splits if_splits sum.splits dest: cycle_complete_pixel_object)

lemma ColorCycle_init_pixel_object:
  assumes "ColorCycle_init k s po speed cs nm now = Inr (a, po1)"
  shows "pixel_object a = s"
proof -
  obtain a0 po0 where i: "Animation_init (ColorCycleX k cs ColorUnstarted) s po speed (hd cs)
      None False nm now = (a0, po0)"
    by (cases "Animation_init (ColorCycleX k cs ColorUnstarted) s po speed (hd cs) None False nm now")
  then have p: "pixel_object a0 = s"
    using Animation_init_pixel_object [of "ColorCycleX k cs ColorUnstarted" s po speed "hd cs" None False nm now]
    by simp
  from assms i show ?thesis
    by (auto simp add: ColorCycle_init_def Let_def ColorCycle_reset_def p
        with_generator_pixel_object
        split: list.splits ext.splits sum.splits prod.splits dest!: color_next_pixel_object)
qed

lemma init_obj_pixel_object:
  assumes "init_obj call s po now = Inr (a, po1)"
  shows "pixel_object a = s"
proof (cases call)
  case (NewAnimation speed c ps p nm)
  with assms Animation_init_pixel_object [of AnimationX s po speed c ps p nm now]
  show ?thesis by (auto simp add: init_obj_def)
next
  case (NewColorCycle speed cs nm)
  with assms show ?thesis by (auto simp add: init_obj_def dest: ColorCycle_init_pixel_object)
next
  case (NewBlink speed c nm)
  with assms show ?thesis
    by (auto simp add: init_obj_def Blink_init_def dest: ColorCycle_init_pixel_object)
next
  case (NewSolid c nm)
  with assms show ?thesis
    by (auto simp add: init_obj_def Solid_init_def dest: ColorCycle_init_pixel_object)
next
  case (NewComet speed c tail r b nm fd)
  with assms show ?thesis
    by (auto simp add: init_obj_def Comet_init_def split: if_splits
        simp add: Animation_init_pixel_object [symmetric])
       (metis Animation_init_pixel_object fst_conv)+
next
  case (NewChase speed c sz sp r nm)
  with assms show ?thesis
    by (auto simp add: init_obj_def Chase_init_def Let_def split: if_splits)
       (metis Animation_init_pixel_object fst_conv)+
qed

text \<open>
  C10: whenever a constructor (of \<open>Animation\<close>, \<open>ColorCycle\<close>, \<open>Blink\<close>, \<open>Solid\<close>,
  \<open>Comet\<close> or \<open>Chase\<close>) returns an object, the pixel object it was given is in the
  store with \<open>auto_write\<close> set to \<open>False\<close> and nothing else changed, and the new object
  refers to it.
\<close>

theorem construct_clears_auto_write:
  assumes "construct w call s now = Inr (i, w')"
  shows "\<exists>po a. sinks w s = Some po \<and> sinks w' s = Some (po\<lparr>auto_write := False\<rparr>)
           \<and> \<not> auto_write (po\<lparr>auto_write := False\<rparr>)
           \<and> anims w' i = Some a \<and> pixel_object a = s"
proof -
  from assms obtain po a po1 where s: "sinks w s = Some po"
    and io: "init_obj call s po now = Inr (a, po1)"
    and w': "w' = w\<lparr>anims := (anims w)(next_aid w \<mapsto> a), sinks := (sinks w)(s \<mapsto> po1),
                    next_aid := Suc (next_aid w)\<rparr>"
    and i: "i = next_aid w"
    by (auto simp add: construct_def split: option.splits sum.splits)
  from init_obj_sink [OF io] init_obj_pixel_object [OF io] s w' i
  show ?thesis by simp
qed

lemma example_world_fields:
  "sinks example_world 0 = Some (sink_of 10)" "next_aid example_world = 0"
  by (simp_all add: example_world_def)

lemma example_construct:
  "construct example_world (NewChase 5 RED 2 3 False None) 0 0 =
   Inr (0, example_world\<lparr>anims := (anims example_world)(0 \<mapsto> example_chase),
             sinks := (sinks example_world)(0 \<mapsto> (sink_of 10)\<lparr>auto_write := False\<rparr>),
             next_aid := Suc 0\<rparr>)"
proof -
  have "init_obj (NewChase 5 RED 2 3 False None) 0 (sink_of 10) 0
      = Inr (example_chase, (sink_of 10)\<lparr>auto_write := False\<rparr>)"
    by (simp add: init_obj_def example_chase_init)
  then show ?thesis
    by (simp add: construct_def example_world_fields)
qed

theorem construct_clears_auto_write_witness:
  "auto_write (sink_of 10) \<and> sinks example_world 0 = Some (sink_of 10)
   \<and> (\<exists>i w'. construct example_world (NewChase 5 RED 2 3 False None) 0 0 = Inr (i, w')
         \<and> (\<exists>po. sinks w' 0 = Some po \<and> \<not> auto_write po))"
proof -
  have "auto_write (sink_of 10)" by (simp add: sink_of_def)
  moreover from construct_clears_auto_write [OF example_construct]
  have "\<exists>i w'. construct example_world (NewChase 5 RED 2 3 False None) 0 0 = Inr (i, w')
         \<and> (\<exists>po. sinks w' 0 = Some po \<and> \<not> auto_write po)"
    by (simp add: example_construct)
  ultimately show ?thesis by (simp add: example_world_fields)
qed

section \<open>animate\<close>

lemma same_schedule_refl: "same_schedule a a"
  by (simp add: same_schedule_def)

lemma same_schedule_trans: "same_schedule a b \<Longrightarrow> same_schedule b c \<Longrightarrow> same_schedule a c"
  by (simp add: same_schedule_def)

lemma cycle_complete_schedule: "cycle_complete a = Inr b \<Longrightarrow> same_schedule a b"
  by (auto simp add: cycle_complete_def same_schedule_def Let_def split: if_splits)

lemma color_next_schedule: "color_next a cs g = Inr (b, g') \<Longrightarrow> same_schedule a b"
  by (auto simp add: color_next_def color_yield_def Let_def same_schedule_def
      split: color_generator.splits if_splits sum.splits dest!: cycle_complete_schedule)

lemma with_generator_schedule: "same_schedule a (with_generator a g)"
  by (simp add: with_generator_def same_schedule_def split: ext.splits)

lemma ColorCycle_draw_schedule: "ColorCycle_draw a po = Inr (b, po') \<Longrightarrow> same_schedule a b"
  by (auto simp add: ColorCycle_draw_def Let_def split: ext.splits sum.splits
      dest!: color_next_schedule intro: same_schedule_trans with_generator_schedule)

lemma comet_end_pass_schedule:
  "comet_end_pass a c cp = Inr (b, c', cp') \<Longrightarrow> same_schedule a b"
  by (auto simp add: comet_end_pass_def Let_def same_schedule_refl
      split: if_splits sum.splits dest: cycle_complete_schedule)

lemma comet_loop_schedule:
  assumes "comet_loop a c po n cp = Some r"
  shows "\<forall>b c' po'. r = Inr (b, c', po') \<longrightarrow> same_schedule a b"
proof (rule comet_loop.raw_induct
    [where P = "\<lambda>a c po n cp r. \<forall>b c' po'. r = Inr (b, c', po') \<longrightarrow> same_schedule a b",
     OF _ assms])
  fix loop :: "animation \<Rightarrow> comet_fields \<Rightarrow> pixel_object \<Rightarrow> nat \<Rightarrow> int \<Rightarrow>
      (py_error + animation \<times> comet_fields \<times> pixel_object) option"
  fix a c po n cp r
  assume IH: "\<And>a c po n cp r. loop a c po n cp = Some r \<Longrightarrow>
      \<forall>b c' po'. r = Inr (b, c', po') \<longrightarrow> same_schedule a b"
  assume eq: "(case comet_prepare a c of
        Inl e \<Rightarrow> Some (Inl e)
      | Inr c1 \<Rightarrow>
          (let colors = (if comet_reverse c1 then reverse_comet_colors c1 else comet_colors c1)
           in case get_range c1 n of
                [] \<Rightarrow>
                  (case comet_end_pass a c1 cp of
                     Inl e \<Rightarrow> Some (Inl e)
                   | Inr (a2, c2, cp2) \<Rightarrow> loop a2 c2 po n cp2)
              | start # rest \<Rightarrow>
                  (case comet_body c1 po n colors start of
                     Inl e \<Rightarrow> Some (Inl e)
                   | Inr po1 \<Rightarrow>
                       Some (Inr (a, c1\<lparr>comet_gen :=
                                CometAtYield n cp colors rest\<rparr>, po1))))) = Some r"
  show "\<forall>b c' po'. r = Inr (b, c', po') \<longrightarrow> same_schedule a b"
  proof (intro allI impI)
    fix b c' po' assume r: "r = Inr (b, c', po')"
    from eq r obtain c1 where c1: "comet_prepare a c = Inr c1"
      by (auto split: sum.splits)
    show "same_schedule a b"
    proof (cases "get_range c1 n")
      case Nil
      with eq r c1 obtain a2 c2 cp2 where e: "comet_end_pass a c1 cp = Inr (a2, c2, cp2)"
        and l: "loop a2 c2 po n cp2 = Some (Inr (b, c', po'))"
        by (auto simp add: Let_def split: sum.splits)
      from IH [OF l] have "same_schedule a2 b" by simp
      with comet_end_pass_schedule [OF e] show ?thesis by (rule same_schedule_trans)
    next
      case (Cons start rest)
      with eq r c1 have "b = a"
        by (auto simp add: Let_def split: sum.splits)
      then show ?thesis by (simp add: same_schedule_refl)
    qed
  qed
qed

lemma Comet_draw_schedule:
  assumes "Comet_draw a c po = Some (Inr (b, c', po'))"
  shows "same_schedule a b"
proof (cases "comet_gen c")
  case CometUnstarted
  with assms comet_loop_schedule [of a c po "length (pixels po)" 0 "Inr (b, c', po')"]
  show ?thesis by (simp add: Comet_draw_def)
next
  case (CometAtYield n cp colors rng)
  show ?thesis
  proof (cases rng)
    case Nil
    with assms CometAtYield obtain a2 c2 cp2 where e: "comet_end_pass a c cp = Inr (a2, c2, cp2)"
      and l: "comet_loop a2 c2 po n cp2 = Some (Inr (b, c', po'))"
      by (auto simp add: Comet_draw_def split: sum.splits)
    from comet_loop_schedule [OF l] have "same_schedule a2 b" by simp
    with comet_end_pass_schedule [OF e] show ?thesis by (rule same_schedule_trans)
  next
    case (Cons start rest)
    with assms CometAtYield have "b = a"
      by (auto simp add: Comet_draw_def split: sum.splits)
    then show ?thesis by (simp add: same_schedule_refl)
  qed
qed

lemma Chase_draw_schedule:
  assumes "Chase_draw a c po = Some (Inr (b, c', po'))"
  shows "same_schedule a b"
  using assms
  by (auto simp add: Chase_draw_def Let_def same_schedule_refl
      split: option.splits if_splits sum.splits dest: cycle_complete_schedule)

lemma same_schedule_ext: "same_schedule a b \<Longrightarrow> same_schedule a (b\<lparr>ext := x\<rparr>)"
  by (simp add: same_schedule_def)

lemma draw_obj_schedule:
  assumes "draw_obj a po = Some (Inr (b, po'))"
  shows "same_schedule a b"
proof (cases "ext a")
  case AnimationX
  with assms show ?thesis by (simp add: draw_obj_def Animation_draw_def)
next
  case (ColorCycleX k cs g)
  with assms show ?thesis by (auto simp add: draw_obj_def dest: ColorCycle_draw_schedule)
next
  case (CometX c)
  with assms show ?thesis
    by (auto simp add: draw_obj_def split: option.splits sum.splits
        dest!: Comet_draw_schedule intro: same_schedule_ext)
next
  case (ChaseX c)
  with assms show ?thesis
    by (auto simp add: draw_obj_def split: option.splits sum.splits
        dest!: Chase_draw_schedule intro: same_schedule_ext)
qed

lemma schedule_kept_refl: "schedule_kept w w"
  by (simp add: schedule_kept_def same_schedule_refl)

lemma schedule_kept_trans: "schedule_kept w w1 \<Longrightarrow> schedule_kept w1 w2 \<Longrightarrow> schedule_kept w w2"
  unfolding schedule_kept_def by (meson same_schedule_trans)

lemma draw_kept:
  assumes "draw w j = Some (Inr w')"
  shows "draw_log w' = draw_log w @ [j]" and "schedule_kept w w'"
proof -
  from assms obtain a po b po' where a: "anims w j = Some a"
    and d: "draw_obj a po = Some (Inr (b, po'))"
    and w': "w' = w\<lparr>anims := (anims w)(j \<mapsto> b), sinks := (sinks w)(pixel_object a \<mapsto> po'),
                    draw_log := draw_log w @ [j]\<rparr>"
    by (auto simp add: draw_def split: option.splits sum.splits)
  from w' show "draw_log w' = draw_log w @ [j]" by simp
  from draw_obj_schedule [OF d] a w' show "schedule_kept w w'"
    by (auto simp add: schedule_kept_def same_schedule_refl)
qed

lemma draw_peers_kept:
  assumes "draw_peers w ps = Some (Inr w')"
  shows "draw_log w' = draw_log w @ ps \<and> schedule_kept w w'"
  using assms
proof (induction ps arbitrary: w)
  case Nil
  then show ?case by (simp add: schedule_kept_refl)
next
  case (Cons p ps)
  then obtain w1 where d: "draw w p = Some (Inr w1)" and r: "draw_peers w1 ps = Some (Inr w')"
    by (auto split: option.splits sum.splits)
  from Cons.IH [OF r] draw_kept [OF d] show ?case
    by (auto intro: schedule_kept_trans)
qed

lemma update_anim_kept:
  assumes "update_anim i f w = Inr w'"
  shows "draw_log w' = draw_log w"
    and "\<exists>a. anims w i = Some a \<and> anims w' i = Some (f a)"
    and "\<forall>k. k \<noteq> i \<longrightarrow> anims w' k = anims w k"
  using assms by (auto simp add: update_anim_def split: option.splits)

lemma animate_fired:
  assumes "anims w i = Some a" and fire: "\<not> paused a" "next_update a \<le> now"
    and an: "animate w i now = Some (Inr (w', r))"
  shows "r" and "draw_log w' = draw_log w @ i # peers a"
    and "\<exists>b. anims w' i = Some b \<and> draw_count b = draw_count a + 1
           \<and> next_update b = now + speed_ns a"
proof -
  from an assms(1) fire obtain w1 w2 a2 w3 where
      d: "draw w i = Some (Inr w1)"
    and u1: "update_anim i (\<lambda>b. b\<lparr>draw_count := draw_count b + 1\<rparr>) w1 = Inr w2"
    and a2: "anims w2 i = Some a2"
    and p: "draw_peers w2 (peers a2) = Some (Inr w3)"
    and u2: "update_anim i (\<lambda>b. b\<lparr>next_update := now + speed_ns b\<rparr>) w3 = Inr w'"
    and r: "r = True"
    by (auto simp add: animate_def split: option.splits sum.splits)
  from draw_kept [OF d] assms(1) obtain a1 where a1: "anims w1 i = Some a1" "same_schedule a a1"
    and l1: "draw_log w1 = draw_log w @ [i]"
    by (auto simp add: schedule_kept_def)
  from update_anim_kept [OF u1] a1 a2 have a2v: "a2 = a1\<lparr>draw_count := draw_count a1 + 1\<rparr>"
    and l2: "draw_log w2 = draw_log w1"
    by auto
  from draw_peers_kept [OF p] a2 obtain a3 where a3: "anims w3 i = Some a3" "same_schedule a2 a3"
    and l3: "draw_log w3 = draw_log w2 @ peers a2"
    by (auto simp add: schedule_kept_def)
  from update_anim_kept [OF u2] a3 have b: "anims w' i = Some (a3\<lparr>next_update := now + speed_ns a3\<rparr>)"
    and l4: "draw_log w' = draw_log w3"
    by auto
  have pe: "peers a2 = peers a" using a1(2) a2v by (simp add: same_schedule_def)
  show "r" using r by simp
  show "draw_log w' = draw_log w @ i # peers a"
    using l1 l2 l3 l4 pe by simp
  show "\<exists>b. anims w' i = Some b \<and> draw_count b = draw_count a + 1
                  \<and> next_update b = now + speed_ns a"
    using b a1(2) a2v a3(2) by (simp add: same_schedule_def)
qed


lemma example_cycle_init:
  "ColorCycle_init ColorCycleC 0 (sink_of 2) 5 [RED, GREEN, BLUE] None 0
   = Inr (example_cycle\<lparr>peers := []\<rparr>, (sink_of 2)\<lparr>auto_write := False\<rparr>)"
  apply (simp add: ColorCycle_init_def Animation_init_def set_color_def RED_def normalize_color_def)
  apply (simp add: recompute_color_def Let_def ColorCycle_reset_def with_generator_def)
  apply (simp add: color_next_def color_yield_def example_cycle_def RED_def with_generator_def)
  done

lemma animate_world_fields:
  "anims animate_world 0 = Some example_cycle" "anims animate_world 1 = Some example_peer"
  "sinks animate_world 0 = Some (sink_of 2)" "sinks animate_world 1 = Some (sink_of 10)"
  "draw_log animate_world = []"
  "anims animate_world (Suc 0) = Some example_peer"
  "sinks animate_world (Suc 0) = Some (sink_of 10)"
  by (simp_all add: animate_world_def)

lemma example_cycle_draw:
  "\<exists>b po. draw_obj example_cycle (sink_of 2) = Some (Inr (b, po))"
  using ColorCycle_draw_step [of example_cycle ColorCycleC "[RED, GREEN, BLUE]" 0 "sink_of 2"]
  by (auto simp add: example_cycle_def)

lemma example_peer_draw:
  "\<exists>b po. draw_obj example_peer (sink_of 10) = Some (Inr (b, po))"
proof -
  have "chase_frame example_peer example_chase_fields 10
      = Some (map (chase_pattern example_peer example_chase_fields (offset example_chase_fields)) [0..<10])"
    by (rule chase_frame_pattern) (simp_all add: example_chase_fields_def)
  then show ?thesis
    by (simp add: draw_obj_def example_peer_def example_chase_def Chase_draw_def sink_of_def
        po_show_def Let_def)
       (simp add: example_chase_fields_def cycle_complete_def Let_def)
qed

lemma animate_world_fires:
  "\<exists>w'. animate animate_world 0 7 = Some (Inr (w', True))"
proof -
  obtain b0 po0 where d0: "draw_obj example_cycle (sink_of 2) = Some (Inr (b0, po0))"
    using example_cycle_draw by blast
  have po: "pixel_object example_cycle = 0" "pixel_object example_peer = Suc 0"
    by (simp_all add: example_cycle_def example_peer_def)
  define w1 where "w1 = animate_world\<lparr>anims := (anims animate_world)(0 \<mapsto> b0),
      sinks := (sinks animate_world)(0 \<mapsto> po0),
      draw_log := draw_log animate_world @ [0]\<rparr>"
  have d: "draw animate_world 0 = Some (Inr w1)"
    by (simp add: draw_def animate_world_fields(1,3) d0 po w1_def)
  have s0: "same_schedule example_cycle b0" using d0 by (rule draw_obj_schedule)
  define b1 where "b1 = b0\<lparr>draw_count := draw_count b0 + 1\<rparr>"
  define w2 where "w2 = w1\<lparr>anims := (anims w1)(0 \<mapsto> b1)\<rparr>"
  have u1: "update_anim 0 (\<lambda>b. b\<lparr>draw_count := draw_count b + 1\<rparr>) w1 = Inr w2"
    by (simp add: update_anim_def w1_def w2_def b1_def)
  have a2: "anims w2 0 = Some b1" by (simp add: w2_def)
  have pe: "peers b1 = [Suc 0]" using s0 by (simp add: same_schedule_def example_cycle_def b1_def)
  obtain c1 po1 where d1: "draw_obj example_peer (sink_of 10) = Some (Inr (c1, po1))"
    using example_peer_draw by blast
  have l2: "anims w2 (Suc 0) = Some example_peer" "sinks w2 (Suc 0) = Some (sink_of 10)"
    by (simp_all add: w2_def w1_def animate_world_fields)
  define w3 where "w3 = w2\<lparr>anims := (anims w2)(Suc 0 \<mapsto> c1),
      sinks := (sinks w2)(Suc 0 \<mapsto> po1), draw_log := draw_log w2 @ [Suc 0]\<rparr>"
  have dp: "draw w2 (Suc 0) = Some (Inr w3)"
    by (simp add: draw_def l2 po d1 w3_def)
  then have p: "draw_peers w2 (peers b1) = Some (Inr w3)"
    by (simp add: pe)
  have a3: "anims w3 0 = Some b1" by (simp add: w3_def a2)
  define w4 where "w4 = w3\<lparr>anims := (anims w3)(0 \<mapsto> b1\<lparr>next_update := 7 + speed_ns b1\<rparr>)\<rparr>"
  have u2: "update_anim 0 (\<lambda>b. b\<lparr>next_update := 7 + speed_ns b\<rparr>) w3 = Inr w4"
    by (simp add: update_anim_def a3 w4_def)
  have f: "\<not> paused example_cycle" "\<not> 7 < next_update example_cycle"
    by (simp_all add: example_cycle_def)
  have "animate animate_world 0 7 = Some (Inr (w4, True))"
    by (simp add: animate_def animate_world_fields(1) f d u1 a2 p u2)
  then show ?thesis by blast
qed


section \<open>Pausing\<close>

lemma freeze_resume_next_update:
  "next_update (resume now (freeze now a)) = now + max 0 (now - next_update a)"
  by (simp add: freeze_def resume_def)

text \<open>
  C2: freezing and at once resuming (the clock reads the same value both times) should
  leave the next-fire time as it was. The colour cycle of the example store has a period
  of 5 ns; \<open>animate\<close> at time 7 fires it, so that its next fire is due at 12. Frozen and
  resumed at time 9 it comes back due at 9: the 3 ns that were left are lost, because
  \<open>freeze\<close> stores \<open>max(0, now - _next_update)\<close> in \<open>_time_left_at_pause\<close>.
\<close>

theorem freeze_resume_loses_time_left:
  "\<exists>w1 a1. animate animate_world 0 7 = Some (Inr (w1, True)) \<and> anims w1 0 = Some a1
     \<and> next_update a1 = 12
     \<and> map_option next_update
          (anim_of (run [CallFreeze 9, CallResume 9] (Inr (a1, sink_of 2)))) = Some 9"
proof -
  obtain w1 where a: "animate animate_world 0 7 = Some (Inr (w1, True))"
    using animate_world_fires by blast
  have f: "\<not> paused example_cycle" "next_update example_cycle \<le> 7"
    and v: "speed_ns example_cycle = 5"
    by (simp_all add: example_cycle_def)
  from animate_fired(3) [OF animate_world_fields(1) f a] v obtain a1 where
    a1: "anims w1 0 = Some a1" "next_update a1 = 12"
    by auto
  have "map_option next_update
          (anim_of (run [CallFreeze 9, CallResume 9] (Inr (a1, sink_of 2)))) = Some 9"
    by (simp add: call_obj_def anim_of_def freeze_resume_next_update a1(2))
  with a a1 show ?thesis by blast
qed

section \<open>Comet\<close>

lemma get_range_length: "length (get_range c n) = nat (int n + tail_length c + 1)"
  by (simp add: get_range_def)

lemma comet_prepare_Tuple:
  assumes "color a = Tuple v" "comet_colors c = None \<or> reverse_comet_colors c \<noteq> None"
  shows "\<exists>c1. comet_prepare a c = Inr c1 \<and> tail_length c1 = tail_length c
     \<and> comet_reverse c1 = comet_reverse c \<and> bounce c1 = bounce c
     \<and> comet_gen c1 = comet_gen c
     \<and> comet_colors c1 \<noteq> None \<and> reverse_comet_colors c1 \<noteq> None"
  using assms
  by (auto simp add: comet_prepare_def comet_recompute_def comet_table_def Let_def)

lemma comet_body_Some:
  assumes "colors \<noteq> None"
  shows "\<exists>po1. comet_body c po n colors start = Inr po1
     \<and> length (shown po1) = Suc (length (shown po))"
  using assms
  by (auto simp add: comet_body_def po_show_def Let_def)

lemma comet_end_pass_bounce:
  assumes "notify_cycles a = 1" "bounce c"
  shows "\<exists>a2. comet_end_pass a c cp =
           Inr (a2, c\<lparr>comet_reverse := \<not> comet_reverse c\<rparr>, if cp + 1 = 2 then 0 else cp + 1)
     \<and> cycle_count a2 = cycle_count a + (if cp + 1 = 2 then 1 else 0)
     \<and> color a2 = color a \<and> notify_cycles a2 = 1"
  using assms by (simp add: comet_end_pass_def cycle_complete_def Let_def)

lemma comet_end_pass_plain:
  assumes "notify_cycles a = 1" "\<not> bounce c"
  shows "\<exists>a2. comet_end_pass a c cp = Inr (a2, c, 0)
     \<and> cycle_count a2 = cycle_count a + 1
     \<and> color a2 = color a \<and> notify_cycles a2 = 1"
  using assms by (simp add: comet_end_pass_def cycle_complete_def Let_def)

text \<open>One sweep starts: from the head of the loop to the first yield.\<close>

lemma comet_loop_starts:
  assumes "color a = Tuple v" "comet_colors c = None \<or> reverse_comet_colors c \<noteq> None"
    "0 < int n + tail_length c + 1"
  shows "\<exists>c1 po1 colors rest. comet_loop a c po n cp = Some (Inr (a, c1, po1))
     \<and> comet_gen c1 = CometAtYield n cp colors rest \<and> colors \<noteq> None
     \<and> Suc (length rest) = nat (int n + tail_length c + 1)
     \<and> tail_length c1 = tail_length c \<and> comet_reverse c1 = comet_reverse c
     \<and> bounce c1 = bounce c
     \<and> comet_colors c1 \<noteq> None \<and> reverse_comet_colors c1 \<noteq> None
     \<and> length (shown po1) = Suc (length (shown po))"
proof -
  from comet_prepare_Tuple [OF assms(1,2)] obtain c1 where
    p: "comet_prepare a c = Inr c1" and t: "tail_length c1 = tail_length c"
    and r: "comet_reverse c1 = comet_reverse c" and b: "bounce c1 = bounce c"
    and cc: "comet_colors c1 \<noteq> None" "reverse_comet_colors c1 \<noteq> None"
    by blast
  let ?colors = "if comet_reverse c1 then reverse_comet_colors c1 else comet_colors c1"
  have cn: "?colors \<noteq> None" using cc by simp
  have "length (get_range c1 n) = nat (int n + tail_length c + 1)"
    by (simp add: get_range_length t)
  with assms(3) obtain start rest where g: "get_range c1 n = start # rest"
    and lr: "Suc (length rest) = nat (int n + tail_length c + 1)"
    by (cases "get_range c1 n") auto
  from comet_body_Some [OF cn, of c1 po n start] obtain po1 where
    bd: "comet_body c1 po n ?colors start = Inr po1"
    and sh: "length (shown po1) = Suc (length (shown po))"
    by blast
  have "comet_loop a c po n cp =
      Some (Inr (a, c1\<lparr>comet_gen := CometAtYield n cp ?colors rest\<rparr>, po1))"
    by (subst comet_loop.simps) (simp add: p g bd Let_def del: if_split cong: if_cong)
  with cn lr t r b cc sh show ?thesis
    by (intro exI [of _ "c1\<lparr>comet_gen := CometAtYield n cp ?colors rest\<rparr>"] exI [of _ po1]
        exI [of _ ?colors] exI [of _ rest]) simp
qed

lemma parity_step:
  "int (Suc q mod 2) = (if int (q mod 2) + 1 = 2 then 0 else int (q mod 2) + 1)"
  "int (Suc q div 2) = int (q div 2) + (if int (q mod 2) + 1 = 2 then 1 else 0)"
  "(r0 \<noteq> odd (Suc q)) = (\<not> (r0 \<noteq> odd q))"
  by (presburger, presburger, auto)

lemma sweep_position_step:
  assumes "0 < L"
  shows "Suc (k mod L) < L \<Longrightarrow> Suc k mod L = Suc (k mod L) \<and> Suc k div L = k div L"
    and "Suc (k mod L) = L \<Longrightarrow> Suc k mod L = 0 \<and> Suc k div L = Suc (k div L)"
  using assms by (auto simp add: mod_Suc div_Suc)

lemma comet_inv_step:
  assumes "comet_inv n tail r0 b v k a"
  shows "\<exists>a' po'. draw_obj a po = Some (Inr (a', po'))
     \<and> comet_inv n tail r0 b v (Suc k) a'
     \<and> length (shown po') = Suc (length (shown po))"
proof -
  define L where "L = sweep_steps n tail"
  from assms obtain c cp colors rest where
    e: "ext a = CometX c" and g: "comet_gen c = CometAtYield n cp colors rest"
    and cn: "colors \<noteq> None" and lr: "length rest = L - 1 - k mod L"
    and tl: "tail_length c = tail + 1" "0 < tail"
    and col: "color a = Tuple v" and nc: "notify_cycles a = 1"
    and ci: "comet_colors c = None \<or> reverse_comet_colors c \<noteq> None"
    and bn: "bounce c = b"
    and cp: "cp = (if b then int (k div L mod 2) else 0)"
    and cc: "cycle_count a = int (if b then k div L div 2 else k div L)"
    and rv: "comet_reverse c = (if b then r0 \<noteq> odd (k div L) else r0)"
    unfolding comet_inv_def L_def by blast
  have L: "int L = int n + tail_length c + 1" "0 < L"
    using tl by (simp_all add: L_def sweep_steps_def)
  have ml: "k mod L < L" using L(2) by simp
  show ?thesis
  proof (cases rest)
    case (Cons start rest')
    with lr ml have "Suc (k mod L) < L" by simp
    from sweep_position_step(1) [OF L(2) this]
    have st: "Suc k mod L = Suc (k mod L)" "Suc k div L = k div L" by simp_all
    from comet_body_Some [OF cn, of c po n start] obtain po1 where
      bd: "comet_body c po n colors start = Inr po1"
      and sh: "length (shown po1) = Suc (length (shown po))"
      by blast
    let ?c' = "c\<lparr>comet_gen := CometAtYield n cp colors rest'\<rparr>"
    let ?a' = "a\<lparr>ext := CometX ?c'\<rparr>"
    have d: "draw_obj a po = Some (Inr (?a', po1))"
      by (simp add: draw_obj_def e Comet_draw_def g Cons bd)
    have lr': "length rest' = L - 1 - Suc k mod L"
      using lr Cons st by simp
    have "comet_inv n tail r0 b v (Suc k) ?a'"
      unfolding comet_inv_def L_def [symmetric]
      by (rule exI [of _ ?c'], rule exI [of _ cp], rule exI [of _ colors],
          rule exI [of _ rest'])
         (use ci in \<open>simp add: cn lr' tl col nc bn cp cc rv st\<close>)
    with d sh show ?thesis by blast
  next
    case Nil
    with lr have "L - 1 - k mod L = 0" by simp
    with ml L(2) have "Suc (k mod L) = L" by linarith
    from sweep_position_step(2) [OF L(2) this]
    have st: "Suc k mod L = 0" "Suc k div L = Suc (k div L)" by simp_all
    have pos: "0 < int n + tail_length c + 1" using L by simp
    show ?thesis
    proof (cases b)
      case True
      let ?c2 = "c\<lparr>comet_reverse := \<not> comet_reverse c\<rparr>"
      define cp2 where "cp2 = (if cp + 1 = 2 then 0 else cp + 1)"
      from comet_end_pass_bounce [OF nc, of c cp] bn True obtain a2 where
        ep: "comet_end_pass a c cp = Inr (a2, ?c2, cp2)"
        and c2: "cycle_count a2 = cycle_count a + (if cp + 1 = 2 then 1 else 0)"
        and col2: "color a2 = Tuple v" and nc2: "notify_cycles a2 = 1"
        using col unfolding cp2_def by auto
      have ci2: "comet_colors ?c2 = None \<or> reverse_comet_colors ?c2 \<noteq> None"
        using ci by simp
      have pos2: "0 < int n + tail_length ?c2 + 1" using pos by simp
      from comet_loop_starts [OF col2 ci2 pos2, of po cp2]
      obtain c3 po3 colors3 rest3 where
        lp: "comet_loop a2 ?c2 po n cp2 = Some (Inr (a2, c3, po3))"
        and g3: "comet_gen c3 = CometAtYield n cp2 colors3 rest3" and cn3: "colors3 \<noteq> None"
        and lr3: "Suc (length rest3) = nat (int n + tail_length ?c2 + 1)"
        and t3: "tail_length c3 = tail_length ?c2" and r3: "comet_reverse c3 = comet_reverse ?c2"
        and b3: "bounce c3 = bounce ?c2"
        and cc3: "comet_colors c3 \<noteq> None" "reverse_comet_colors c3 \<noteq> None"
        and sh: "length (shown po3) = Suc (length (shown po))"
        by blast
      let ?a' = "a2\<lparr>ext := CometX c3\<rparr>"
      have d: "draw_obj a po = Some (Inr (?a', po3))"
        by (simp add: draw_obj_def e Comet_draw_def g Nil ep lp)
      have lr': "length rest3 = L - 1 - Suc k mod L"
        using lr3 L st by simp
      have "comet_inv n tail r0 b v (Suc k) ?a'"
        unfolding comet_inv_def L_def [symmetric]
        by (rule exI [of _ c3], rule exI [of _ cp2], rule exI [of _ colors3],
            rule exI [of _ rest3])
           (simp add: g3 cn3 lr' tl t3 col2 nc2 cc3 b3 bn True r3 rv c2 cc cp st parity_step
              cp2_def del: of_nat_Suc)
      with d sh show ?thesis by blast
    next
      case False
      from comet_end_pass_plain [OF nc, of c cp] bn False obtain a2 where
        ep: "comet_end_pass a c cp = Inr (a2, c, 0)"
        and c2: "cycle_count a2 = cycle_count a + 1"
        and col2: "color a2 = Tuple v" and nc2: "notify_cycles a2 = 1"
        using col by auto
      from comet_loop_starts [OF col2 ci pos, of po 0]
      obtain c3 po3 colors3 rest3 where
        lp: "comet_loop a2 c po n 0 = Some (Inr (a2, c3, po3))"
        and g3: "comet_gen c3 = CometAtYield n 0 colors3 rest3" and cn3: "colors3 \<noteq> None"
        and lr3: "Suc (length rest3) = nat (int n + tail_length c + 1)"
        and t3: "tail_length c3 = tail_length c" and r3: "comet_reverse c3 = comet_reverse c"
        and b3: "bounce c3 = bounce c"
        and cc3: "comet_colors c3 \<noteq> None" "reverse_comet_colors c3 \<noteq> None"
        and sh: "length (shown po3) = Suc (length (shown po))"
        by blast
      let ?a' = "a2\<lparr>ext := CometX c3\<rparr>"
      have d: "draw_obj a po = Some (Inr (?a', po3))"
        by (simp add: draw_obj_def e Comet_draw_def g Nil ep lp)
      have lr': "length rest3 = L - 1 - Suc k mod L"
        using lr3 L st by simp
      have "comet_inv n tail r0 b v (Suc k) ?a'"
        unfolding comet_inv_def L_def [symmetric]
        by (rule exI [of _ c3], rule exI [of _ 0], rule exI [of _ colors3],
            rule exI [of _ rest3])
           (simp add: g3 cn3 lr' tl t3 col2 nc2 cc3 b3 bn False r3 rv c2 cc st)
      with d sh show ?thesis by blast
    qed
  qed
qed

lemma Comet_init_state:
  assumes "tail \<noteq> 0"
  shows "\<exists>a0 c0. Comet_init s po speed (Tuple v) tail r0 b nm fd now
        = Inr (a0, po\<lparr>auto_write := False\<rparr>)
     \<and> ext a0 = CometX c0 \<and> comet_gen c0 = CometUnstarted \<and> tail_length c0 = tail + 1
     \<and> comet_colors c0 = None \<and> bounce c0 = b \<and> comet_reverse c0 = r0
     \<and> color a0 = Tuple v \<and> notify_cycles a0 = 1 \<and> cycle_count a0 = 0"
  using assms
  by (simp add: Comet_init_def Animation_init_def set_color_def normalize_color_def
      recompute_color_def Let_def)

lemma comet_first_draw:
  assumes "ext a = CometX c" "comet_gen c = CometUnstarted" "tail_length c = tail + 1"
    "comet_colors c = None" "color a = Tuple v" "notify_cycles a = 1" "cycle_count a = 0"
    "0 < tail"
  shows "\<exists>a' po'. draw_obj a po = Some (Inr (a', po'))
     \<and> comet_inv (length (pixels po)) tail (comet_reverse c) (bounce c) v 0 a'
     \<and> length (shown po') = Suc (length (shown po))"
proof -
  let ?n = "length (pixels po)"
  let ?L = "sweep_steps ?n tail"
  have L: "int ?L = int ?n + tail_length c + 1" "0 < ?L"
    using assms(3,8) by (simp_all add: sweep_steps_def)
  have ci: "comet_colors c = None \<or> reverse_comet_colors c \<noteq> None" using assms(4) by simp
  have pos: "0 < int ?n + tail_length c + 1" using assms(3,8) by simp
  from comet_loop_starts [OF assms(5) ci pos, of po 0]
  obtain c1 po1 colors rest where
    lp: "comet_loop a c po ?n 0 = Some (Inr (a, c1, po1))"
    and g: "comet_gen c1 = CometAtYield ?n 0 colors rest" and cn: "colors \<noteq> None"
    and lr: "Suc (length rest) = nat (int ?n + tail_length c + 1)"
    and t: "tail_length c1 = tail_length c" and r: "comet_reverse c1 = comet_reverse c"
    and b: "bounce c1 = bounce c"
    and cc: "comet_colors c1 \<noteq> None" "reverse_comet_colors c1 \<noteq> None"
    and sh: "length (shown po1) = Suc (length (shown po))"
    by blast
  let ?a' = "a\<lparr>ext := CometX c1\<rparr>"
  have d: "draw_obj a po = Some (Inr (?a', po1))"
    by (simp add: draw_obj_def assms(1,2) Comet_draw_def lp)
  have lr': "length rest = ?L - 1 - 0 mod ?L"
    using lr L by simp
  have "comet_inv ?n tail (comet_reverse c) (bounce c) v 0 ?a'"
    unfolding comet_inv_def
    by (rule exI [of _ c1], rule exI [of _ 0], rule exI [of _ colors],
        rule exI [of _ rest])
       (simp add: g cn lr' t r b cc assms(3,5,6,7,8))
  with d sh show ?thesis by blast
qed

lemma comet_inv_draws:
  assumes "comet_inv n tail r0 b v m a"
  shows "\<exists>a' po'. draws k a po = Some (Inr (a', po'))
     \<and> comet_inv n tail r0 b v (m + k) a'
     \<and> length (shown po') = length (shown po) + k"
  using assms
proof (induction k arbitrary: a po m)
  case 0
  then show ?case by simp
next
  case (Suc k)
  from comet_inv_step [OF Suc.prems, of po] obtain a1 po1 where
    d: "draw_obj a po = Some (Inr (a1, po1))" and i: "comet_inv n tail r0 b v (Suc m) a1"
    and s: "length (shown po1) = Suc (length (shown po))"
    by blast
  from Suc.IH [OF i, of po1] obtain a' po' where
    "draws k a1 po1 = Some (Inr (a', po'))" "comet_inv n tail r0 b v (Suc m + k) a'"
    "length (shown po') = length (shown po1) + k"
    by blast
  with d s show ?case by simp
qed

lemma Comet_draws_state:
  assumes "0 < tail"
  shows "\<exists>a0 a1 po1.
       Comet_init s po speed (Tuple v) tail r0 b nm fd now = Inr (a0, po\<lparr>auto_write := False\<rparr>)
     \<and> draws (Suc k) a0 (po\<lparr>auto_write := False\<rparr>) = Some (Inr (a1, po1))
     \<and> comet_inv (length (pixels po)) tail r0 b v k a1
     \<and> length (shown po1) = length (shown po) + Suc k"
proof -
  let ?po = "po\<lparr>auto_write := False\<rparr>"
  from assms have "tail \<noteq> 0" by simp
  from Comet_init_state [OF this, of s po speed v r0 b nm fd now] obtain a0 c0 where
    i: "Comet_init s po speed (Tuple v) tail r0 b nm fd now = Inr (a0, ?po)"
    and e: "ext a0 = CometX c0" "comet_gen c0 = CometUnstarted" "tail_length c0 = tail + 1"
      "comet_colors c0 = None" "color a0 = Tuple v" "notify_cycles a0 = 1" "cycle_count a0 = 0"
    and br: "bounce c0 = b" "comet_reverse c0 = r0"
    by blast
  from comet_first_draw [OF e assms, of ?po] br obtain a1 po1 where
    d: "draw_obj a0 ?po = Some (Inr (a1, po1))"
    and inv: "comet_inv (length (pixels po)) tail r0 b v 0 a1"
    and s: "length (shown po1) = Suc (length (shown po))"
    by auto
  from comet_inv_draws [OF inv, of k po1] obtain a2 po2 where
    "draws k a1 po1 = Some (Inr (a2, po2))"
    "comet_inv (length (pixels po)) tail r0 b v k a2"
    "length (shown po2) = length (shown po1) + k"
    by auto
  with i d s show ?thesis by simp
qed

lemma run_draws: "run (replicate k CallDraw) (Inr (a, po)) = draws k a po"
proof (induction k arbitrary: a po)
  case 0
  then show ?case by simp
next
  case (Suc k)
  show ?case
  proof (cases "draw_obj a po")
    case None
    then show ?thesis by (simp add: call_obj_def)
  next
    case (Some r)
    show ?thesis
    proof (cases r)
      case (Inl e)
      with Some show ?thesis by (cases k) (simp_all add: call_obj_def)
    next
      case (Inr p)
      with Some Suc.IH [of "fst p" "snd p"] show ?thesis
        by (cases p) (simp add: call_obj_def)
    qed
  qed
qed

text \<open>
  C3, as the code has it: a comet constructed with a positive tail length \<open>tail\<close> and
  a tuple as colour on \<open>n\<close> pixels draws without an error any number of times, one
  frame shown per draw. The positions of a sweep are those from \<open>-(tail + 1)\<close> to
  \<open>n\<close>, ascending when the comet is not reversed and descending when it is, which
  makes \<open>n + tail + 2\<close> draw steps per sweep (42 for a tail of 10 on 30 pixels). After
  \<open>k + 1\<close> draws, \<open>k div (n + tail + 2)\<close> sweeps are complete; without bounce
  \<open>cycle_count\<close> is that number and the direction is the initial one, with bounce
  \<open>cycle_count\<close> is half of it (rounded down) and the direction has flipped once per
  completed sweep.
\<close>

theorem Comet_sweeps:
  assumes "0 < tail"
  shows "\<exists>a0 po0 a1 po1 c1.
       Comet_init s po speed (Tuple v) tail r0 b nm fd now = Inr (a0, po0)
     \<and> draws (Suc k) a0 po0 = Some (Inr (a1, po1)) \<and> ext a1 = CometX c1
     \<and> length (shown po1) = length (shown po) + Suc k
     \<and> get_range (c1\<lparr>comet_reverse := False\<rparr>) (length (pixels po))
          = [- (tail + 1)..int (length (pixels po))]
     \<and> get_range (c1\<lparr>comet_reverse := True\<rparr>) (length (pixels po))
          = rev [- (tail + 1)..int (length (pixels po))]
     \<and> length (get_range c1 (length (pixels po))) = length (pixels po) + nat tail + 2
     \<and> cycle_count a1 =
          int (if b then k div (length (pixels po) + nat tail + 2) div 2
               else k div (length (pixels po) + nat tail + 2))
     \<and> comet_reverse c1 =
          (if b then r0 \<noteq> odd (k div (length (pixels po) + nat tail + 2)) else r0)"
proof -
  have L: "sweep_steps (length (pixels po)) tail = length (pixels po) + nat tail + 2"
    using assms by (simp add: sweep_steps_def nat_add_distrib)
  from Comet_draws_state [OF assms, of s po speed v r0 b nm fd now k]
  obtain a0 a1 po1 where
    i: "Comet_init s po speed (Tuple v) tail r0 b nm fd now = Inr (a0, po\<lparr>auto_write := False\<rparr>)"
    and d: "draws (Suc k) a0 (po\<lparr>auto_write := False\<rparr>) = Some (Inr (a1, po1))"
    and inv: "comet_inv (length (pixels po)) tail r0 b v k a1"
    and s: "length (shown po1) = length (shown po) + Suc k"
    by blast
  from inv obtain c1 where e: "ext a1 = CometX c1" and t: "tail_length c1 = tail + 1"
    and cc: "cycle_count a1 = int (if b then k div sweep_steps (length (pixels po)) tail div 2
               else k div sweep_steps (length (pixels po)) tail)"
    and rv: "comet_reverse c1 =
          (if b then r0 \<noteq> odd (k div sweep_steps (length (pixels po)) tail) else r0)"
    unfolding comet_inv_def by blast
  have g: "get_range (c1\<lparr>comet_reverse := False\<rparr>) (length (pixels po))
          = [- (tail + 1)..int (length (pixels po))]"
    "get_range (c1\<lparr>comet_reverse := True\<rparr>) (length (pixels po))
          = rev [- (tail + 1)..int (length (pixels po))]"
    by (simp_all add: get_range_def t)
  have gl: "length (get_range c1 (length (pixels po))) = length (pixels po) + nat tail + 2"
    using assms by (simp add: get_range_length t nat_add_distrib)
  from i d e s g gl cc rv show ?thesis
    unfolding L by blast
qed

lemma example_sink_30: "length (pixels (sink_of 30)) = 30" "shown (sink_of 30) = []"
  by (simp_all add: sink_of_def)

theorem Comet_sweeps_witness:
  "(0::int) < 10
   \<and> (\<exists>a0 po0 a1 po1 c1.
       Comet_init 0 (sink_of 30) 5 RED 10 False False None example_fade 0 = Inr (a0, po0)
     \<and> draws 43 a0 po0 = Some (Inr (a1, po1)) \<and> ext a1 = CometX c1
     \<and> length (shown po1) = 43
     \<and> length (get_range c1 30) = 42
     \<and> cycle_count a1 = 1 \<and> \<not> comet_reverse c1)
   \<and> (\<exists>a0 po0 a1 po1 c1.
       Comet_init 0 (sink_of 30) 5 RED 10 False True None example_fade 0 = Inr (a0, po0)
     \<and> draws 43 a0 po0 = Some (Inr (a1, po1)) \<and> ext a1 = CometX c1
     \<and> cycle_count a1 = 0 \<and> comet_reverse c1)
   \<and> (\<exists>a0 po0 a1 po1 c1.
       Comet_init 0 (sink_of 30) 5 RED 10 False True None example_fade 0 = Inr (a0, po0)
     \<and> draws 85 a0 po0 = Some (Inr (a1, po1)) \<and> ext a1 = CometX c1
     \<and> cycle_count a1 = 1 \<and> \<not> comet_reverse c1)"
proof -
  have t: "(0::int) < 10" by simp
  have n: "(43::nat) = Suc 42" "(85::nat) = Suc 84" by simp_all
  have v: "(42::nat) div (30 + nat 10 + 2) = 1" "(84::nat) div (30 + nat 10 + 2) = 2"
    "30 + nat 10 + 2 = (42::nat)" by simp_all
  have A: "\<exists>a0 po0 a1 po1 c1.
       Comet_init 0 (sink_of 30) 5 RED 10 False False None example_fade 0 = Inr (a0, po0)
     \<and> draws 43 a0 po0 = Some (Inr (a1, po1)) \<and> ext a1 = CometX c1
     \<and> length (shown po1) = 43
     \<and> length (get_range c1 30) = 42
     \<and> cycle_count a1 = 1 \<and> \<not> comet_reverse c1"
    using Comet_sweeps [OF t, of 0 "sink_of 30" 5 "[255, 0, 0]" False False None example_fade 0 42]
    unfolding example_sink_30 n [symmetric] RED_def [symmetric] v
    by (simp del: draws.simps) blast
  have B: "\<exists>a0 po0 a1 po1 c1.
       Comet_init 0 (sink_of 30) 5 RED 10 False True None example_fade 0 = Inr (a0, po0)
     \<and> draws 43 a0 po0 = Some (Inr (a1, po1)) \<and> ext a1 = CometX c1
     \<and> cycle_count a1 = 0 \<and> comet_reverse c1"
    using Comet_sweeps [OF t, of 0 "sink_of 30" 5 "[255, 0, 0]" False True None example_fade 0 42]
    unfolding example_sink_30 n [symmetric] RED_def [symmetric] v
    by (simp del: draws.simps) blast
  have C: "\<exists>a0 po0 a1 po1 c1.
       Comet_init 0 (sink_of 30) 5 RED 10 False True None example_fade 0 = Inr (a0, po0)
     \<and> draws 85 a0 po0 = Some (Inr (a1, po1)) \<and> ext a1 = CometX c1
     \<and> cycle_count a1 = 1 \<and> \<not> comet_reverse c1"
    using Comet_sweeps [OF t, of 0 "sink_of 30" 5 "[255, 0, 0]" False True None example_fade 0 84]
    unfolding example_sink_30 n [symmetric] RED_def [symmetric] v
    by (simp del: draws.simps) blast
  from t A B C show ?thesis by blast
qed

lemma example_comet_init:
  "Comet_init 0 (sink_of 30) 5 RED 10 False False None example_fade 0 =
   Inr (\<lparr>pixel_object = 0, peers = [], speed_ns = 5, color = RED, paused = False,
         next_update = 0, time_left_at_pause = 0, also_notify = [], name = None,
         notify_cycles = 1, draw_count = 0, cycle_count = 0,
         ext = CometX example_comet_fields, hook_calls = [RED], notified = []\<rparr>,
        (sink_of 30)\<lparr>auto_write := False\<rparr>)"
  apply (simp add: Comet_init_def example_comet_fields_def)
  apply (simp add: Animation_init_def set_color_def RED_def normalize_color_def)
  apply (simp add: recompute_color_def Let_def)
  done

lemma example_comet_draws:
  "\<exists>a po. run (replicate (Suc k) CallDraw)
       (Comet_init 0 (sink_of 30) 5 RED 10 False False None example_fade 0) = Some (Inr (a, po))
     \<and> cycle_count a = int (k div 42)"
proof -
  have t: "(0::int) < 10" by simp
  have L: "sweep_steps (length (pixels (sink_of 30))) 10 = 42"
    by (simp add: sweep_steps_def sink_of_def)
  from Comet_draws_state [OF t, of 0 "sink_of 30" 5 "[255, 0, 0]" False False None example_fade 0 k]
  obtain a0 a1 po1 where
    i: "Comet_init 0 (sink_of 30) 5 RED 10 False False None example_fade 0
          = Inr (a0, (sink_of 30)\<lparr>auto_write := False\<rparr>)"
    and d: "draws (Suc k) a0 ((sink_of 30)\<lparr>auto_write := False\<rparr>) = Some (Inr (a1, po1))"
    and inv: "comet_inv (length (pixels (sink_of 30))) 10 False False [255, 0, 0] k a1"
    unfolding RED_def by blast
  from inv have "cycle_count a1 = int (k div 42)"
    unfolding comet_inv_def L by auto
  with i d show ?thesis
    by (simp only: run_draws) simp
qed

text \<open>
  C3 as stated fails: the range of a sweep for a tail of 10 on 30 pixels has 42
  positions, not 30 + 10 + 1, and after 30 + 10 + 1 + 1 draws no cycle is complete yet.
\<close>

theorem Comet_sweep_not_41_steps_counterexample:
  "length (get_range example_comet_fields 30) \<noteq> 30 + 10 + 1
   \<and> map_option cycle_count (anim_of (run (replicate (30 + 10 + 1 + 1) CallDraw)
        (Comet_init 0 (sink_of 30) 5 RED 10 False False None example_fade 0))) = Some 0"
proof -
  have "length (get_range example_comet_fields 30) = 42"
    by (simp add: get_range_length example_comet_fields_def)
  moreover have "(30 + 10 + 1 + 1 :: nat) = Suc 41" by simp
  moreover from example_comet_draws [of 41]
  have "map_option cycle_count (anim_of (run (replicate (Suc 41) CallDraw)
        (Comet_init 0 (sink_of 30) 5 RED 10 False False None example_fade 0))) = Some 0"
    by (auto simp add: anim_of_def)
  ultimately show ?thesis by (simp only:) simp
qed


end
